theory Spec2Isabelle
  imports Complex_Main "HOL-Library.Sublist"
begin

section \<open>Usage accounting: \<open>services/TokenUsage.ts\<close>\<close>

text \<open>
  JavaScript numbers are modelled as rationals: the claims below concern which fields are
  read, written, compared and copied; comparison and copying of finite doubles agree with
  the rationals, and rounding of products and sums is not modelled.
\<close>

type_synonym number = rat

datatype ModelType = Gemini_2_5_flash_image | Gemini_3_pro_image_preview

record Pricing =
  p_input :: number
  p_output_text :: number
  p_output_image :: number
  p_output_imageflat :: number

fun PRICING :: "ModelType \<Rightarrow> Pricing" where
  "PRICING Gemini_2_5_flash_image =
     \<lparr>p_input = 0, p_output_text = 0, p_output_image = 0, p_output_imageflat = 39 / 1000\<rparr>"
| "PRICING Gemini_3_pro_image_preview =
     \<lparr>p_input = 2 / 1000000, p_output_text = 12 / 1000000,
      p_output_image = 120 / 1000000, p_output_imageflat = 0\<rparr>"

text \<open>The class \<open>TokenUsage\<close>; the field \<open>total\<close> is named \<open>total_tokens\<close> here.\<close>

record TokenUsage =
  total_tokens :: number
  input :: number
  output_image :: number
  output_text :: number
  images :: number
  total_cost :: number
  historic_cost :: number
  historic_images :: number

text \<open>
  \<open>Partial<TokenUsageData>\<close>: a plain object, every key optional. It is a map from the
  key's name to its value.
\<close>

type_synonym TokenUsageData = "string \<rightharpoonup> number"

text \<open>The operator \<open>??\<close> on an optional number.\<close>

fun nullish :: "'a option \<Rightarrow> 'a \<Rightarrow> 'a" where
  "nullish None d = d"
| "nullish (Some v) d = v"

text \<open>The field initialisers of the class: what \<open>new TokenUsage()\<close> holds.\<close>

definition TokenUsage_default :: TokenUsage where
  "TokenUsage_default =
     \<lparr>total_tokens = 0, input = 0, output_image = 0, output_text = 0, images = 0,
      total_cost = 0, historic_cost = 0, historic_images = 0\<rparr>"

text \<open>The constructor: \<open>None\<close> is the call without an argument.\<close>

fun TokenUsage_new :: "TokenUsageData option \<Rightarrow> TokenUsage" where
  "TokenUsage_new None = TokenUsage_default"
| "TokenUsage_new (Some data) =
     \<lparr>total_tokens = nullish (data ''total'') 0,
      input = nullish (data ''input'') 0,
      output_image = nullish (data ''output_image'') 0,
      output_text = nullish (data ''output_text'') 0,
      images = nullish (data ''images'') 0,
      total_cost = nullish (data ''total_cost'') 0,
      historic_cost = nullish (data ''historic_cost'') 0,
      historic_images = nullish (data ''historic_images'') 0\<rparr>"

definition addItem :: "number \<Rightarrow> number \<Rightarrow> number \<Rightarrow> ModelType \<Rightarrow> TokenUsage \<Rightarrow> TokenUsage" where
  "addItem inp out_text out_image model u =
     (let pricing = PRICING model;
          itemCost = inp * p_input pricing + out_text * p_output_text pricing
                     + out_image * p_output_image pricing + p_output_imageflat pricing
      in u\<lparr>input := input u + inp,
           output_text := output_text u + out_text,
           output_image := output_image u + out_image,
           total_tokens := total_tokens u + (inp + out_text + out_image),
           images := images u + 1,
           total_cost := total_cost u + itemCost,
           historic_cost := historic_cost u + itemCost,
           historic_images := historic_images u + 1\<rparr>)"

definition reset :: "TokenUsage \<Rightarrow> TokenUsage" where
  "reset u = u\<lparr>total_tokens := 0, input := 0, output_image := 0, output_text := 0,
               images := 0, total_cost := 0\<rparr>"

record CostBreakdown =
  inputCost :: number
  outputCost :: number
  totalCost :: number
  cb_historic_cost :: number

text \<open>
  A method reads \<open>this\<close> and may assign to it: \<open>getCostBreakdown\<close> returns its result
  together with the object as the call leaves it.
\<close>

definition getCostBreakdown :: "ModelType \<Rightarrow> TokenUsage \<Rightarrow> CostBreakdown \<times> TokenUsage" where
  "getCostBreakdown model u =
     (let pricing = PRICING model
      in (\<lparr>inputCost = input u * p_input pricing,
           outputCost = output_text u * p_output_text pricing
                        + output_image u * p_output_image pricing
                        + images u * p_output_imageflat pricing,
           totalCost = total_cost u,
           cb_historic_cost = historic_cost u\<rparr>, u))"

definition toJSON :: "TokenUsage \<Rightarrow> TokenUsageData" where
  "toJSON u =
     [''total'' \<mapsto> total_tokens u,
      ''input'' \<mapsto> input u,
      ''output_image'' \<mapsto> output_image u,
      ''output_text'' \<mapsto> output_text u,
      ''images'' \<mapsto> images u,
      ''total_cost'' \<mapsto> total_cost u,
      ''historic_cost'' \<mapsto> historic_cost u,
      ''historic_images'' \<mapsto> historic_images u]"

definition fromJSON :: "TokenUsageData \<Rightarrow> TokenUsage" where
  "fromJSON data = TokenUsage_new (Some data)"

section \<open>Strings\<close>

text \<open>
  A string is a list of \<open>char\<close>, one per code unit in the range 0 to 255. Of the code
  units that \<open>String.prototype.trim\<close> strips (ECMAScript WhiteSpace and LineTerminator),
  these lie in that range: TAB, LF, VT, FF, CR, SPACE and NBSP.
\<close>

definition is_whitespace :: "char \<Rightarrow> bool" where
  "is_whitespace c \<longleftrightarrow>
     c \<in> set [CHR 0x09, CHR 0x0A, CHR 0x0B, CHR 0x0C, CHR 0x0D, CHR 0x20, CHR 0xA0]"

definition trim :: "string \<Rightarrow> string" where
  "trim s = rev (dropWhile is_whitespace (rev (dropWhile is_whitespace s)))"

text \<open>The one-character string \<open>'\n'\<close>.\<close>

definition newline :: string where
  "newline = [CHR 0x0A]"

text \<open>\<open>s.includes(sub)\<close>: \<open>sub\<close> occurs in \<open>s\<close> as a contiguous run.\<close>

definition str_includes :: "string \<Rightarrow> string \<Rightarrow> bool" where
  "str_includes s sub = sublist sub s"

text \<open>\<open>x || ''\<close> on an optional string.\<close>

fun or_empty :: "string option \<Rightarrow> string" where
  "or_empty None = []"
| "or_empty (Some s) = s"

section \<open>Prompts and the user document: \<open>models/Prompt.ts\<close>, \<open>services/firebase.ts\<close>\<close>

record PromptItem =
  name :: string
  prompt :: string
  enabled :: bool
  skip_beforeafter_prompt :: bool

text \<open>
  \<open>UserDocument\<close>; its optional fields \<open>historic_cost\<close> and \<open>historic_images\<close> carry
  the prefix \<open>doc_\<close> here, the names being taken by \<open>TokenUsage\<close>.
\<close>

record UserDocument =
  firstname :: string
  lastname :: string
  prompts :: "PromptItem list"
  prompt_before :: "string option"
  prompt_after :: "string option"
  doc_historic_cost :: "number option"
  doc_historic_images :: "number option"

section \<open>The application component: \<open>App\<close>\<close>

datatype Status = Pending | Processing | Completed | Failed

text \<open>
  \<open>ProcessingResult\<close> as \<open>handleProcess\<close> builds it. The id, the template
  \<open>`${prompt.name}-${Date.now()}`\<close>, is kept as the pair of its two holes. \<open>'f\<close> is the
  browser's \<open>File\<close>.
\<close>

record 'f ProcessingResult =
  task_id :: "string \<times> int"
  files :: "'f list"
  promptName :: string
  promptText :: string
  status :: Status
  imageUrl :: "string option"
  error :: "string option"

datatype LogType = Info | Success | Error | Warning

text \<open>What \<open>generateImageFromReference\<close> reports of the tokens used.\<close>

record Usage =
  u_total :: number
  u_input :: number
  u_output_image :: number
  u_output_text :: number

text \<open>
  The messages written to the console: a fixed text, or one of the templates of
  \<open>handleProcess\<close> with the values of its holes.
\<close>

datatype LogMessage =
    Text string
  | StartingBatch nat
  | Queued nat
  | ProcessingTask nat nat string
  | SuccessGenerated string Usage
  | FailedTask string string

text \<open>A \<open>LogEntry\<close> without its wall-clock timestamp.\<close>

record LogEntry =
  message :: LogMessage
  log_type :: LogType

text \<open>
  What the component reads from outside itself: whether \<open>window.aistudio\<close> is there, the
  clock at the k-th task built, and the generation service. The service either throws an
  \<open>Error\<close> (\<open>Inl\<close> of its message) or returns an image URL and the usage; the k-th call of
  a batch may answer anything, so the call's number is an argument.
\<close>

record 'f Env =
  aistudio :: bool
  Date_now :: "nat \<Rightarrow> int"
  generateImageFromReference ::
    "nat \<Rightarrow> 'f list \<Rightarrow> string \<Rightarrow> ModelType \<Rightarrow> string + string \<times> Usage"

text \<open>The state of \<open>App\<close> that the batch, the ledger and the prompt store touch.\<close>

record 'f App =
  userDoc :: "UserDocument option"
  isSavingUserDoc :: bool
  hasKey :: bool
  selectedFiles :: "'f list"
  results :: "'f ProcessingResult list"
  logs :: "LogEntry list"
  isProcessing :: bool
  tokenUsage :: TokenUsage
  selectedModel :: ModelType

definition log :: "LogMessage \<Rightarrow> LogType \<Rightarrow> 'f App \<Rightarrow> 'f App" where
  "log msg ty s = s\<lparr>logs := logs s @ [\<lparr>message = msg, log_type = ty\<rparr>]\<rparr>"

text \<open>
  \<open>updateResultStatus\<close>: the entry at \<open>index\<close> keeps its other fields. The batch loop calls
  it with an index below the length of the list only.
\<close>

definition updateResultStatus ::
  "nat \<Rightarrow> Status \<Rightarrow> string option \<Rightarrow> string option \<Rightarrow> 'f App \<Rightarrow> 'f App" where
  "updateResultStatus index st url err s =
     s\<lparr>results := (results s)[index :=
          (results s ! index)\<lparr>status := st, imageUrl := url, error := err\<rparr>]\<rparr>"

text \<open>The filter \<open>p => p.enabled && p.name.trim()\<close>: a non-empty string is truthy.\<close>

definition enabledPrompts :: "UserDocument \<Rightarrow> PromptItem list" where
  "enabledPrompts d = filter (\<lambda>p. enabled p \<and> trim (name p) \<noteq> []) (prompts d)"

definition fullPrompt :: "UserDocument \<Rightarrow> PromptItem \<Rightarrow> string" where
  "fullPrompt d p =
     (let beforeText = or_empty (prompt_before d);
          afterText = or_empty (prompt_after d);
          basePrompt = prompt p
      in trim (beforeText @ (if beforeText \<noteq> [] then newline else []) @ basePrompt
               @ (if afterText \<noteq> [] then newline else []) @ afterText))"

text \<open>The \<open>forEach\<close> that pushes one task per enabled prompt onto \<open>tasks\<close>.\<close>

fun buildTasks ::
  "'f Env \<Rightarrow> UserDocument \<Rightarrow> 'f list \<Rightarrow> PromptItem list \<Rightarrow> 'f ProcessingResult list
   \<Rightarrow> 'f ProcessingResult list" where
  "buildTasks env d filesToProcess [] tasks = tasks"
| "buildTasks env d filesToProcess (p # ps) tasks =
     buildTasks env d filesToProcess ps
       (tasks @ [\<lparr>task_id = (name p, Date_now env (length tasks)),
                  files = filesToProcess,
                  promptName = name p,
                  promptText = fullPrompt d p,
                  status = Pending,
                  imageUrl = None,
                  error = None\<rparr>])"

text \<open>
  The test of the \<open>catch\<close> block for an invalid or expired key:
  \<open>err.message && err.message.includes("Requested entity was not found")\<close>.
\<close>

definition isKeyError :: "string \<Rightarrow> bool" where
  "isKeyError msg \<longleftrightarrow> msg \<noteq> [] \<and> str_includes msg ''Requested entity was not found''"

text \<open>
  The sequential loop \<open>for (let i = 0; i < tasks.length; i++)\<close>. Leaving the recursion is
  the \<open>break\<close>.
\<close>

function process_loop ::
  "'f Env \<Rightarrow> nat \<Rightarrow> 'f ProcessingResult list \<Rightarrow> 'f App \<Rightarrow> 'f App" where
  "process_loop env i tasks s =
     (if i < length tasks then
        (let task = tasks ! i;
             s1 = log (ProcessingTask (i + 1) (length tasks) (promptName task)) Info
                    (updateResultStatus i Processing None None s)
         in case generateImageFromReference env i (files task) (promptText task)
                   (selectedModel s) of
              Inr (url, usage) \<Rightarrow>
                process_loop env (i + 1) tasks
                  (log (SuccessGenerated (promptName task) usage) Success
                     (updateResultStatus i Completed (Some url) None
                        (s1\<lparr>tokenUsage :=
                              addItem (u_input usage) (u_output_text usage)
                                (u_output_image usage) (selectedModel s)
                                (fromJSON (toJSON (tokenUsage s1)))\<rparr>)))
            | Inl msg \<Rightarrow>
                (let s2 = log (FailedTask (promptName task) msg) Error
                            (updateResultStatus i Failed None (Some msg) s1)
                 in if isKeyError msg then
                      (let s3 = log (Text ''API Key might be invalid or expired. Check environment or re-select key.'')
                                  Error s2
                       in if aistudio env then s3\<lparr>hasKey := False\<rparr> else s3)
                    else process_loop env (i + 1) tasks s2))
      else s)"
  by pat_completeness auto
termination
  by (relation "measure (\<lambda>(env, i, tasks, s). length tasks - i)") auto

declare process_loop.simps [simp del]

definition handleProcess :: "'f Env \<Rightarrow> 'f App \<Rightarrow> 'f App" where
  "handleProcess env s =
     (case userDoc s of
        None \<Rightarrow> log (Text ''Error: No prompts configured.'') Error s
      | Some d \<Rightarrow>
          if prompts d = [] then log (Text ''Error: No prompts configured.'') Error s
          else if enabledPrompts d = [] then log (Text ''Error: No prompts selected.'') Error s
          else if selectedFiles s = [] then log (Text ''Error: No files selected.'') Error s
          else if \<not> hasKey s then log (Text ''Error: API Key not configured.'') Error s
          else
            (let s1 = s\<lparr>isProcessing := True, results := []\<rparr>;
                 filesToProcess = selectedFiles s
             in if filesToProcess = [] then
                  (log (Text ''No files selected.'') Warning s1)\<lparr>isProcessing := False\<rparr>
                else
                  (let s2 = log (StartingBatch (length filesToProcess)) Info s1;
                       tasks = buildTasks env d filesToProcess (enabledPrompts d) [];
                       s3 = log (Queued (length tasks)) Info (s2\<lparr>results := tasks\<rparr>);
                       s4 = process_loop env 0 tasks s3
                   in log (Text ''Batch processing finished.'') Success
                        (s4\<lparr>isProcessing := False\<rparr>))))"

text \<open>
  The effect that loads the lifetime values of the user document. It compares with
  \<open>tokenUsage\<close>, the ledger of the render the effect belongs to, and its updater rebuilds
  the ledger from \<open>prev\<close>, the ledger at the time the update is applied.
\<close>

definition loadHistoric :: "UserDocument option \<Rightarrow> TokenUsage \<Rightarrow> TokenUsage \<Rightarrow> TokenUsage" where
  "loadHistoric doc tokenUsage_now prev =
     (let updates_cost =
            (case Option.bind doc doc_historic_cost of
               Some c \<Rightarrow> if c > historic_cost tokenUsage_now then Some c else None
             | None \<Rightarrow> None);
          updates_images =
            (case Option.bind doc doc_historic_images of
               Some n \<Rightarrow> if n > historic_images tokenUsage_now then Some n else None
             | None \<Rightarrow> None);
          needsUpdate = (updates_cost \<noteq> None \<or> updates_images \<noteq> None)
      in if needsUpdate then
           (let next0 = fromJSON (toJSON prev);
                next1 = (case updates_cost of Some c \<Rightarrow> next0\<lparr>historic_cost := c\<rparr>
                         | None \<Rightarrow> next0)
            in case updates_images of Some n \<Rightarrow> next1\<lparr>historic_images := n\<rparr>
               | None \<Rightarrow> next1)
         else prev)"

text \<open>\<open>handleClear\<close> and the model selector both reset the ledger through a copy.\<close>

definition clearTokenUsage :: "TokenUsage \<Rightarrow> TokenUsage" where
  "clearTokenUsage prev = reset (fromJSON (toJSON prev))"

text \<open>
  \<open>handleSavePrompts\<close>: \<open>user_email\<close> is \<open>user?.email\<close>, and \<open>write_ok\<close> tells whether
  the awaited \<open>updateUserDocument\<close> resolved (\<open>True\<close>) or threw. The \<open>try\<close> has a \<open>catch\<close>
  for every error, so the handler always ends normally, with a state.
\<close>

definition handleSavePrompts ::
  "string option \<Rightarrow> bool \<Rightarrow> PromptItem list \<Rightarrow> string \<Rightarrow> string \<Rightarrow> 'f App \<Rightarrow> 'f App" where
  "handleSavePrompts user_email write_ok ps promptBefore promptAfter s =
     (case user_email of
        None \<Rightarrow> s
      | Some email \<Rightarrow>
          (let s1 = s\<lparr>isSavingUserDoc := True\<rparr>;
               s2 = (if write_ok then
                       log (Text ''Prompts saved to cloud.'') Success
                         (s1\<lparr>userDoc :=
                               map_option (\<lambda>prev. prev\<lparr>prompts := ps,
                                                         prompt_before := Some promptBefore,
                                                         prompt_after := Some promptAfter\<rparr>)
                                 (userDoc s1)\<rparr>)
                     else log (Text ''Failed to save prompts.'') Error s1)
           in s2\<lparr>isSavingUserDoc := False\<rparr>))"

definition handlePromptsChange ::
  "PromptItem list \<Rightarrow> string \<Rightarrow> string \<Rightarrow> 'f App \<Rightarrow> 'f App" where
  "handlePromptsChange ps promptBefore promptAfter s =
     s\<lparr>userDoc := map_option (\<lambda>prev. prev\<lparr>prompts := ps,
                                             prompt_before := Some promptBefore,
                                             prompt_after := Some promptAfter\<rparr>)
                   (userDoc s)\<rparr>"

section \<open>The prompt editor component: \<open>PromptEditor\<close>\<close>

text \<open>
  The props \<open>promptBefore\<close> and \<open>promptAfter\<close> of the last render, the state of the
  component, and its refs. Times are \<open>Date.now()\<close>, in milliseconds.
\<close>

record Editor =
  promptBefore :: string
  promptAfter :: string
  items :: "PromptItem list"
  beforeText :: string
  afterText :: string
  hasChanges :: bool
  lastInputTime :: int
  isLocalChange :: bool
  isInitialized :: bool

text \<open>The effect with dependencies \<open>[promptBefore, promptAfter]\<close>.\<close>

definition syncTextFromProps :: "string \<Rightarrow> string \<Rightarrow> Editor \<Rightarrow> Editor" where
  "syncTextFromProps pb pa e =
     (if \<not> isLocalChange e then e\<lparr>beforeText := pb, afterText := pa\<rparr> else e)"

text \<open>The effect with dependency \<open>[prompts]\<close>.\<close>

definition initItemsFromProps :: "PromptItem list \<Rightarrow> Editor \<Rightarrow> Editor" where
  "initItemsFromProps ps e =
     (if isLocalChange e then e\<lparr>isLocalChange := False\<rparr>
      else if isInitialized e then e
      else e\<lparr>items := map (\<lambda>p. \<lparr>name = name p, prompt = prompt p, enabled = enabled p,
                                skip_beforeafter_prompt = skip_beforeafter_prompt p\<rparr>) ps,
             hasChanges := False,
             isInitialized := True\<rparr>)"

text \<open>What \<open>triggerSave\<close> and the change effect hand to the parent.\<close>

definition promptsArray :: "Editor \<Rightarrow> PromptItem list" where
  "promptsArray e =
     map (\<lambda>item. \<lparr>name = name item, prompt = prompt item, enabled = enabled item,
                   skip_beforeafter_prompt = skip_beforeafter_prompt item\<rparr>) (items e)"

text \<open>
  \<open>triggerSave\<close>: the call of \<open>onSave\<close> is returned as its arguments; the parent's handler
  is not awaited.
\<close>

definition triggerSave :: "Editor \<Rightarrow> Editor \<times> (PromptItem list \<times> string \<times> string)" where
  "triggerSave e = (e\<lparr>hasChanges := False\<rparr>, (promptsArray e, beforeText e, afterText e))"

text \<open>
  The effect that notifies the parent; \<open>App\<close> always passes \<open>onChange\<close>. \<open>None\<close> is the
  early return.
\<close>

definition notifyParent :: "Editor \<Rightarrow> Editor \<times> (PromptItem list \<times> string \<times> string) option" where
  "notifyParent e =
     (if \<not> isInitialized e then (e, None)
      else (e\<lparr>isLocalChange := True\<rparr>, Some (promptsArray e, beforeText e, afterText e)))"

text \<open>
  One run of the interval callback at time \<open>now\<close>; the second component is the save it
  triggers, if any.
\<close>

definition autoSaveTick ::
  "int \<Rightarrow> Editor \<Rightarrow> Editor \<times> (PromptItem list \<times> string \<times> string) option" where
  "autoSaveTick now e =
     (if items e = [] then (e, None)
      else if \<not> hasChanges e then (e, None)
      else (let timeSinceLastInput = now - lastInputTime e
            in if timeSinceLastInput \<ge> 5000 then
                 (case triggerSave e of (e', req) \<Rightarrow> (e', Some req))
               else (e, None)))"

definition recordInput :: "int \<Rightarrow> Editor \<Rightarrow> Editor" where
  "recordInput now e = e\<lparr>lastInputTime := now, hasChanges := True\<rparr>"

text \<open>
  The edit handlers. The rendered list calls them with an index below its length.
  \<open>Drop\<close> carries \<open>draggedIndex\<close> (\<open>None\<close> is \<open>null\<close>) and the index dropped on.
\<close>

datatype EditOp =
    NameChange nat string
  | PromptChange nat string
  | BeforeTextChange string
  | AfterTextChange string
  | SelectionChange nat bool
  | SkipBeforeAfterChange nat bool
  | AddPrompt
  | DeletePrompt nat
  | Drop "nat option" nat

fun handleEdit :: "int \<Rightarrow> EditOp \<Rightarrow> Editor \<Rightarrow> Editor" where
  "handleEdit now (NameChange index v) e =
     (let e1 = recordInput now e
      in e1\<lparr>items := (items e1)[index := (items e1 ! index)\<lparr>name := v\<rparr>]\<rparr>)"
| "handleEdit now (PromptChange index v) e =
     (let e1 = recordInput now e
      in e1\<lparr>items := (items e1)[index := (items e1 ! index)\<lparr>prompt := v\<rparr>]\<rparr>)"
| "handleEdit now (BeforeTextChange v) e = (recordInput now e)\<lparr>beforeText := v\<rparr>"
| "handleEdit now (AfterTextChange v) e = (recordInput now e)\<lparr>afterText := v\<rparr>"
| "handleEdit now (SelectionChange index b) e =
     (let e1 = recordInput now e
      in e1\<lparr>items := (items e1)[index := (items e1 ! index)\<lparr>enabled := b\<rparr>]\<rparr>)"
| "handleEdit now (SkipBeforeAfterChange index b) e =
     (let e1 = recordInput now e
      in e1\<lparr>items := (items e1)[index :=
                (items e1 ! index)\<lparr>skip_beforeafter_prompt := b\<rparr>]\<rparr>)"
| "handleEdit now AddPrompt e =
     (let e1 = recordInput now e
      in e1\<lparr>items := items e1 @ [\<lparr>name = [], prompt = [], enabled = False,
                                   skip_beforeafter_prompt = False\<rparr>]\<rparr>)"
| "handleEdit now (DeletePrompt index) e =
     (let e1 = recordInput now e
      in e1\<lparr>items := map snd (filter (\<lambda>(i, _). i \<noteq> index) (enumerate 0 (items e1)))\<rparr>)"
| "handleEdit now (Drop None index) e = e"
| "handleEdit now (Drop (Some draggedIndex) index) e =
     (if draggedIndex = index then e
      else
        (let e1 = recordInput now e;
             draggedItem = items e1 ! draggedIndex;
             removed = take draggedIndex (items e1) @ drop (Suc draggedIndex) (items e1)
         in e1\<lparr>items := take index removed @ [draggedItem] @ drop index removed\<rparr>))"

text \<open>Whether the handler ran \<open>recordInput\<close>: every edit but a drop that moves nothing.\<close>

fun isInput :: "EditOp \<Rightarrow> bool" where
  "isInput (Drop None index) = False"
| "isInput (Drop (Some draggedIndex) index) = (draggedIndex \<noteq> index)"
| "isInput _ = True"

section \<open>Editor and application together\<close>

text \<open>
  The editor mounted in \<open>App\<close>, with \<open>onSave = handleSavePrompts\<close> and
  \<open>onChange = handlePromptsChange\<close>. Each event is run to completion: the renders and
  effects it causes, and the remote write of a save, finish before the next event.
\<close>

record 'f System =
  editor :: Editor
  app :: "'f App"

text \<open>
  A render with the props of a new user document. Every \<open>setUserDoc\<close> of \<open>App\<close> installs
  a fresh \<open>prompts\<close> array, so the effect on \<open>[prompts]\<close> runs; the effect on
  \<open>[promptBefore, promptAfter]\<close> runs when one of the two strings differs from the last
  render's. The prop defaults are \<open>''\<close>.
\<close>

definition receiveProps :: "UserDocument \<Rightarrow> Editor \<Rightarrow> Editor" where
  "receiveProps d e =
     (let pb = or_empty (prompt_before d);
          pa = or_empty (prompt_after d);
          e1 = (if pb \<noteq> promptBefore e \<or> pa \<noteq> promptAfter e
                then syncTextFromProps pb pa e else e);
          e2 = initItemsFromProps (prompts d) e1
      in e2\<lparr>promptBefore := pb, promptAfter := pa\<rparr>)"

text \<open>
  The change effect after a render in which \<open>items\<close>, \<open>beforeText\<close> or \<open>afterText\<close>
  changed: it calls \<open>handlePromptsChange\<close>, and the document that installs comes back as
  props.
\<close>

definition propagate :: "'f System \<Rightarrow> 'f System" where
  "propagate sys =
     (case notifyParent (editor sys) of
        (e1, None) \<Rightarrow> sys\<lparr>editor := e1\<rparr>
      | (e1, Some (ps, b, a)) \<Rightarrow>
          (let a1 = handlePromptsChange ps b a (app sys)
           in case userDoc a1 of
                None \<Rightarrow> \<lparr>editor = e1, app = a1\<rparr>
              | Some d \<Rightarrow> \<lparr>editor = receiveProps d e1, app = a1\<rparr>))"

text \<open>
  Mounting the editor on a loaded document at time \<open>now\<close>: the initial state of the
  hooks, the two prop effects in source order, then the change effect with its echo.
  On the first commit the change effect also runs once on the still empty list of the
  first render; its run on the initialised list follows at once and is the one that
  lasts, so only that one is written here.
\<close>

definition mount :: "int \<Rightarrow> 'f App \<Rightarrow> UserDocument \<Rightarrow> 'f System" where
  "mount now a d =
     (let pb = or_empty (prompt_before d);
          pa = or_empty (prompt_after d);
          e0 = \<lparr>promptBefore = pb, promptAfter = pa, items = [], beforeText = pb,
                afterText = pa, hasChanges = False, lastInputTime = now,
                isLocalChange = False, isInitialized = False\<rparr>;
          e1 = initItemsFromProps (prompts d) (syncTextFromProps pb pa e0)
      in propagate \<lparr>editor = e1, app = a\<lparr>userDoc := Some d\<rparr>\<rparr>)"

datatype Event =
    Edit int EditOp
  | Tick int bool
  | Inbound UserDocument

text \<open>
  \<open>Edit now op\<close> is a user edit at time \<open>now\<close>; \<open>Tick now write_ok\<close> is the interval
  callback at time \<open>now\<close>, with the outcome of the remote write should it save;
  \<open>Inbound d\<close> is a document installed in \<open>App\<close> from the remote store.
\<close>

fun step :: "string option \<Rightarrow> Event \<Rightarrow> 'f System \<Rightarrow> 'f System" where
  "step user_email (Edit now op) sys =
     (let e1 = handleEdit now op (editor sys)
      in if isInput op then propagate (sys\<lparr>editor := e1\<rparr>) else sys\<lparr>editor := e1\<rparr>)"
| "step user_email (Tick now write_ok) sys =
     (case autoSaveTick now (editor sys) of
        (e1, None) \<Rightarrow> sys\<lparr>editor := e1\<rparr>
      | (e1, Some (ps, b, a)) \<Rightarrow>
          (let a1 = handleSavePrompts user_email write_ok ps b a (app sys)
           in if user_email \<noteq> None \<and> write_ok then
                (case userDoc a1 of
                   None \<Rightarrow> \<lparr>editor = e1, app = a1\<rparr>
                 | Some d \<Rightarrow> \<lparr>editor = receiveProps d e1, app = a1\<rparr>)
              else \<lparr>editor = e1, app = a1\<rparr>))"
| "step user_email (Inbound d) sys =
     (let e1 = receiveProps d (editor sys);
          sys1 = \<lparr>editor = e1, app = (app sys)\<lparr>userDoc := Some d\<rparr>\<rparr>
      in if items e1 \<noteq> items (editor sys) \<or> beforeText e1 \<noteq> beforeText (editor sys)
            \<or> afterText e1 \<noteq> afterText (editor sys)
         then propagate sys1 else sys1)"

fun run :: "string option \<Rightarrow> Event list \<Rightarrow> 'f System \<Rightarrow> 'f System" where
  "run user_email [] sys = sys"
| "run user_email (ev # evs) sys = run user_email evs (step user_email ev sys)"

text \<open>Whether the tick of an event saved: the flush fired.\<close>

definition flushes :: "int \<Rightarrow> 'f System \<Rightarrow> bool" where
  "flushes now sys \<longleftrightarrow> snd (autoSaveTick now (editor sys)) \<noteq> None"

section \<open>The specification's wording of the composed prompt\<close>

text \<open>
  Follows the specification, not the source: the non-empty segments among
  \<open>beforeText\<close>, \<open>item.text\<close>, \<open>afterText\<close> joined with a newline, or \<open>item.text\<close> alone
  when the item's skip flag is set.
\<close>

fun join_with :: "string \<Rightarrow> string list \<Rightarrow> string" where
  "join_with sep [] = []"
| "join_with sep [x] = x"
| "join_with sep (x # y # zs) = x @ sep @ join_with sep (y # zs)"

definition spec_join :: "string \<Rightarrow> string \<Rightarrow> string \<Rightarrow> string" where
  "spec_join b t a = join_with newline (filter (\<lambda>seg. seg \<noteq> []) [b, t, a])"

definition spec_fullText :: "UserDocument \<Rightarrow> PromptItem \<Rightarrow> string" where
  "spec_fullText d p =
     (if skip_beforeafter_prompt p then prompt p
      else spec_join (or_empty (prompt_before d)) (prompt p) (or_empty (prompt_after d)))"

section \<open>Vocabulary for the batch\<close>

text \<open>
  The batch starts when none of the four guards of \<open>handleProcess\<close> returns early; the
  tasks it then queues; what the service answers to the k-th call of the batch; and
  whether that answer is an error the \<open>catch\<close> block takes for a bad key.
\<close>

definition batchStarts :: "'f App \<Rightarrow> UserDocument \<Rightarrow> bool" where
  "batchStarts s d \<longleftrightarrow>
     userDoc s = Some d \<and> prompts d \<noteq> [] \<and> enabledPrompts d \<noteq> []
     \<and> selectedFiles s \<noteq> [] \<and> hasKey s"

definition queuedTasks :: "'f Env \<Rightarrow> 'f App \<Rightarrow> UserDocument \<Rightarrow> 'f ProcessingResult list" where
  "queuedTasks env s d = buildTasks env d (selectedFiles s) (enabledPrompts d) []"

definition outcome ::
  "'f Env \<Rightarrow> 'f ProcessingResult list \<Rightarrow> ModelType \<Rightarrow> nat \<Rightarrow> string + string \<times> Usage" where
  "outcome env tasks m k =
     generateImageFromReference env k (files (tasks ! k)) (promptText (tasks ! k)) m"

definition keyErrorAt :: "'f Env \<Rightarrow> 'f ProcessingResult list \<Rightarrow> ModelType \<Rightarrow> nat \<Rightarrow> bool" where
  "keyErrorAt env tasks m k =
     (case outcome env tasks m k of Inl msg \<Rightarrow> isKeyError msg | Inr r \<Rightarrow> False)"

text \<open>
  The entry the \<open>catch\<close> block logs for a bad key, and the entries one call of
  \<open>handleProcess\<close> adds to the log.
\<close>

definition keyWarning :: LogEntry where
  "keyWarning =
     \<lparr>message = Text ''API Key might be invalid or expired. Check environment or re-select key.'',
      log_type = Error\<rparr>"

definition batchLogs :: "'f Env \<Rightarrow> 'f App \<Rightarrow> LogEntry list" where
  "batchLogs env s = drop (length (logs s)) (logs (handleProcess env s))"

section \<open>Vocabulary for the editor\<close>

text \<open>
  A system is settled when the editor has been initialised, no echo of a local change is
  outstanding, and \<open>App\<close> holds a user document: the state between two events of a
  mounted editor.
\<close>

definition settled :: "'f System \<Rightarrow> bool" where
  "settled sys \<longleftrightarrow>
     isInitialized (editor sys) \<and> \<not> isLocalChange (editor sys) \<and> userDoc (app sys) \<noteq> None"

text \<open>A run of events without an edit, all of whose ticks come before time \<open>T\<close>.\<close>

fun quietBefore :: "int \<Rightarrow> Event list \<Rightarrow> bool" where
  "quietBefore T [] = True"
| "quietBefore T (Edit t op # evs) = False"
| "quietBefore T (Tick now ok # evs) = (now < T \<and> quietBefore T evs)"
| "quietBefore T (Inbound d # evs) = quietBefore T evs"

section \<open>Example inputs\<close>

definition usage0 :: Usage where
  "usage0 = \<lparr>u_total = 1300, u_input = 10, u_output_image = 1290, u_output_text = 0\<rparr>"

definition item :: "string \<Rightarrow> string \<Rightarrow> PromptItem" where
  "item n t = \<lparr>name = n, prompt = t, enabled = True, skip_beforeafter_prompt = False\<rparr>"

definition doc_of :: "PromptItem list \<Rightarrow> string option \<Rightarrow> string option \<Rightarrow> UserDocument" where
  "doc_of ps b a = \<lparr>firstname = [], lastname = [], prompts = ps, prompt_before = b,
                    prompt_after = a, doc_historic_cost = None, doc_historic_images = None\<rparr>"

definition app_of :: "UserDocument \<Rightarrow> string list \<Rightarrow> string App" where
  "app_of d fs = \<lparr>userDoc = Some d, isSavingUserDoc = False, hasKey = True,
                  selectedFiles = fs, results = [], logs = [], isProcessing = False,
                  tokenUsage = TokenUsage_default, selectedModel = Gemini_2_5_flash_image\<rparr>"

text \<open>A service that always returns an image, and one whose second call fails on the key.\<close>

definition env_ok :: "string Env" where
  "env_ok = \<lparr>aistudio = False, Date_now = (\<lambda>k. 0),
             generateImageFromReference =
               (\<lambda>k fs t m. Inr (''data:image/png;base64,AA=='', usage0))\<rparr>"

definition env_keyfail :: "bool \<Rightarrow> string Env" where
  "env_keyfail studio =
     \<lparr>aistudio = studio, Date_now = (\<lambda>k. 0),
      generateImageFromReference = (\<lambda>k fs t m.
         if k = 1 then Inl ''Requested entity was not found.''
         else Inr (''data:image/png;base64,AA=='', usage0))\<rparr>"

text \<open>Two enabled prompts under \<open>Edit:\<close>, and three enabled prompts.\<close>

definition doc_A :: UserDocument where
  "doc_A = doc_of [item ''wide'' ''wide shot'', item ''close'' ''close-up'']
             (Some ''Edit:'') None"

definition app_A :: "string App" where
  "app_A = app_of doc_A [''ref.png'']"

definition doc_B :: UserDocument where
  "doc_B = doc_of [item ''one'' ''a'', item ''two'' ''b'', item ''three'' ''c''] None None"

definition app_B :: "string App" where
  "app_B = app_of doc_B [''ref.png'']"

text \<open>An enabled prompt with a blank name, then an enabled prompt with an empty text.\<close>

definition doc_blank :: UserDocument where
  "doc_blank = doc_of [item ''  '' ''x'', item ''wide'' []]
                 (Some ''Edit:'') (Some ''Go '')"

text \<open>A ledger and a remote document whose cost is larger and whose count is smaller.\<close>

definition ledger0 :: TokenUsage where
  "ledger0 = \<lparr>total_tokens = 1300, input = 10, output_image = 1290, output_text = 0,
              images = 1, total_cost = 39 / 1000, historic_cost = 3, historic_images = 7\<rparr>"

definition doc_remote :: UserDocument where
  "doc_remote = (doc_of [] None None)\<lparr>doc_historic_cost := Some 5,
                                        doc_historic_images := Some 4\<rparr>"

text \<open>The editor mounted on \<open>doc_A\<close>, and on a document without prompts.\<close>

definition email0 :: "string option" where
  "email0 = Some ''user@example.org''"

definition sys_A :: "string System" where
  "sys_A = mount 0 app_A doc_A"

definition sys_empty :: "string System" where
  "sys_empty = mount 0 (app_of (doc_of [] None None) []) (doc_of [] None None)"

text \<open>
  An edit at 0 ms with the ticks up to 2000 ms, a second edit at 3000 ms, and the ticks
  that follow it up to 4000 ms and up to 7000 ms.
\<close>

definition first_edit_and_ticks :: "Event list" where
  "first_edit_and_ticks =
     [Edit 0 (PromptChange 0 ''wide shot, dusk''), Tick 1000 True, Tick 2000 True]"

definition second_edit :: Event where
  "second_edit = Edit 3000 (PromptChange 0 ''wide shot, dawn'')"

definition ticks_to_4 :: "Event list" where
  "ticks_to_4 = [Tick 4000 True]"

definition ticks_to_7 :: "Event list" where
  "ticks_to_7 = [Tick 4000 True, Tick 5000 True, Tick 6000 True, Tick 7000 True]"

text \<open>One edit of the before-text on the empty list; one edit of a prompt of \<open>doc_A\<close>.\<close>

definition sys_empty_dirty :: "string System" where
  "sys_empty_dirty = step email0 (Edit 0 (BeforeTextChange ''Edit:'')) sys_empty"

definition sys_dirty :: "string System" where
  "sys_dirty = step email0 (Edit 0 (PromptChange 0 ''wide shot, dusk'')) sys_A"

text \<open>
  An edit and the tick whose save succeeds; a remote document with another prompt list
  and the same surrounding texts, and one with another before-text as well.
\<close>

definition saved_run :: "Event list" where
  "saved_run = [Edit 0 (PromptChange 0 ''wide shot, dusk''), Tick 5000 True]"

definition doc_remote_prompts :: UserDocument where
  "doc_remote_prompts = doc_of [item ''tele'' ''telephoto''] (Some ''Edit:'') (Some [])"

definition doc_remote_before :: UserDocument where
  "doc_remote_before = doc_of [item ''tele'' ''telephoto''] (Some ''Redo:'') None"

text \<open>A disabled prompt between two enabled prompts with blank names.\<close>

definition doc_allblank :: UserDocument where
  "doc_allblank =
     doc_of [item [] ''x'', (item ''wide'' ''y'')\<lparr>enabled := False\<rparr>, item ''  '' ''z'']
       None None"

section \<open>Properties of the ledger\<close>

lemma fromJSON_toJSON: "fromJSON (toJSON u) = u"
  by (simp add: fromJSON_def toJSON_def)

text \<open>
  Claim C4. For every ledger, \<open>reset\<close> sets the six session fields (total, input,
  output_text, output_image, images, total_cost) to zero and leaves \<open>historic_cost\<close> and
  \<open>historic_images\<close> as they were; the same holds of the copy-and-reset that
  \<open>handleClear\<close> and the model selector perform.
\<close>

theorem reset_zeroes_session_keeps_lifetime:
  "total_tokens (reset u) = 0 \<and> input (reset u) = 0 \<and> output_text (reset u) = 0
   \<and> output_image (reset u) = 0 \<and> images (reset u) = 0 \<and> total_cost (reset u) = 0
   \<and> historic_cost (reset u) = historic_cost u
   \<and> historic_images (reset u) = historic_images u
   \<and> historic_cost (clearTokenUsage u) = historic_cost u
   \<and> historic_images (clearTokenUsage u) = historic_images u"
  by (simp add: reset_def clearTokenUsage_def fromJSON_def toJSON_def)

text \<open>
  Claim C5. Decoding the encoded snapshot of any ledger gives the ledger back, all eight
  fields alike; and decoding a snapshot in which a key is absent gives zero for that
  field, so the empty snapshot decodes to the all-zero ledger.
\<close>

theorem toJSON_fromJSON_roundtrip:
  "fromJSON (toJSON u) = u
   \<and> total_tokens (fromJSON (data(''total'' := None))) = 0
   \<and> input (fromJSON (data(''input'' := None))) = 0
   \<and> output_image (fromJSON (data(''output_image'' := None))) = 0
   \<and> output_text (fromJSON (data(''output_text'' := None))) = 0
   \<and> images (fromJSON (data(''images'' := None))) = 0
   \<and> total_cost (fromJSON (data(''total_cost'' := None))) = 0
   \<and> historic_cost (fromJSON (data(''historic_cost'' := None))) = 0
   \<and> historic_images (fromJSON (data(''historic_images'' := None))) = 0
   \<and> fromJSON Map.empty = TokenUsage_default"
  by (simp add: fromJSON_def toJSON_def TokenUsage_default_def)

text \<open>
  Claim C6. For every ledger and either model, \<open>getCostBreakdown\<close> leaves the ledger as
  it found it and returns the input cost, the output cost, the session cost and the
  lifetime cost: the first two are the current counters priced by the given model's row
  of \<open>PRICING\<close>, the last two are the ledger's \<open>total_cost\<close> and \<open>historic_cost\<close>.
\<close>

theorem getCostBreakdown_reads_only:
  "snd (getCostBreakdown model u) = u
   \<and> inputCost (fst (getCostBreakdown model u)) = input u * p_input (PRICING model)
   \<and> outputCost (fst (getCostBreakdown model u)) =
       output_text u * p_output_text (PRICING model)
       + output_image u * p_output_image (PRICING model)
       + images u * p_output_imageflat (PRICING model)
   \<and> totalCost (fst (getCostBreakdown model u)) = total_cost u
   \<and> cb_historic_cost (fst (getCostBreakdown model u)) = historic_cost u"
  by (simp add: getCostBreakdown_def Let_def)

text \<open>
  Claim C3. Merging the remote pair into the ledger of the current render: each of
  \<open>historic_cost\<close> and \<open>historic_images\<close> becomes the remote value when that value is
  present and strictly greater, and stays the local value otherwise. The result is one of
  the two values, never their sum, it is never below the local value, and no other field
  of the ledger changes.
\<close>

theorem loadHistoric_keeps_larger:
  "historic_cost (loadHistoric doc u u) =
     (case Option.bind doc doc_historic_cost of
        None \<Rightarrow> historic_cost u
      | Some c \<Rightarrow> if c > historic_cost u then c else historic_cost u)
   \<and> historic_images (loadHistoric doc u u) =
     (case Option.bind doc doc_historic_images of
        None \<Rightarrow> historic_images u
      | Some n \<Rightarrow> if n > historic_images u then n else historic_images u)
   \<and> historic_cost u \<le> historic_cost (loadHistoric doc u u)
   \<and> historic_images u \<le> historic_images (loadHistoric doc u u)
   \<and> loadHistoric doc u u = u\<lparr>historic_cost := historic_cost (loadHistoric doc u u),
                               historic_images := historic_images (loadHistoric doc u u)\<rparr>"
  by (simp add: loadHistoric_def Let_def fromJSON_toJSON split: option.splits)

theorem loadHistoric_keeps_larger_witness:
  "historic_cost (loadHistoric (Some doc_remote) ledger0 ledger0) = 5
   \<and> historic_images (loadHistoric (Some doc_remote) ledger0 ledger0) = 7"
  using loadHistoric_keeps_larger [of "Some doc_remote" ledger0]
  by (simp add: doc_remote_def doc_of_def ledger0_def)

section \<open>Properties of the batch\<close>

subsection \<open>Trimming and the composed prompt\<close>

lemma is_whitespace_newline: "is_whitespace (CHR 0x0A)"
  by (simp add: is_whitespace_def)

lemma trim_Cons_ws: "is_whitespace c \<Longrightarrow> trim (c # xs) = trim xs"
  by (simp add: trim_def)

lemma trim_snoc_ws:
  assumes "is_whitespace c"
  shows "trim (xs @ [c]) = trim xs"
proof (cases "\<forall>x\<in>set xs. is_whitespace x")
  case True
  then have a: "dropWhile is_whitespace xs = []" by simp
  from True assms have b: "dropWhile is_whitespace (xs @ [c]) = []" by simp
  show ?thesis by (simp add: trim_def a b)
next
  case False
  then have "dropWhile is_whitespace (xs @ [c]) = dropWhile is_whitespace xs @ [c]"
    by (auto simp add: dropWhile_append1)
  with assms show ?thesis by (simp add: trim_def)
qed

lemma fullPrompt_spec_join:
  assumes "\<not> (prompt p = [] \<and> or_empty (prompt_before d) \<noteq> [] \<and> or_empty (prompt_after d) \<noteq> [])"
  shows "fullPrompt d p = trim (spec_join (or_empty (prompt_before d)) (prompt p) (or_empty (prompt_after d)))"
  using assms trim_snoc_ws[OF is_whitespace_newline] trim_Cons_ws[OF is_whitespace_newline]
  by (auto simp add: fullPrompt_def spec_join_def Let_def newline_def)

lemma buildTasks_promptText:
  "map promptText (buildTasks env d fs ps acc) = map promptText acc @ map (fullPrompt d) ps"
  by (induction ps arbitrary: acc) simp_all

lemma buildTasks_promptName:
  "map promptName (buildTasks env d fs ps acc) = map promptName acc @ map name ps"
  by (induction ps arbitrary: acc) simp_all

lemma buildTasks_files:
  "map files (buildTasks env d fs ps acc) = map files acc @ replicate (length ps) fs"
  by (induction ps arbitrary: acc) (simp_all add: replicate_append_same)

lemma buildTasks_status:
  "map status (buildTasks env d fs ps acc) = map status acc @ replicate (length ps) Pending"
  by (induction ps arbitrary: acc) (simp_all add: replicate_append_same)

lemma buildTasks_length:
  "length (buildTasks env d fs ps acc) = length acc + length ps"
  by (induction ps arbitrary: acc) simp_all

subsection \<open>The loop leaves the queued texts alone\<close>

lemma map_update_same:
  assumes "\<And>x. f (g x) = f x"
  shows "map f (xs[i := g (xs ! i)]) = map f xs"
proof (cases "i < length xs")
  case True
  then show ?thesis by (simp add: map_update assms list_update_same_conv)
next
  case False
  then have "length xs \<le> i" by simp
  then show ?thesis by (simp add: list_update_beyond)
qed

lemma updateResultStatus_frame:
  "map promptText (results (updateResultStatus i st url err s)) = map promptText (results s)"
  "map promptName (results (updateResultStatus i st url err s)) = map promptName (results s)"
  "map files (results (updateResultStatus i st url err s)) = map files (results s)"
  "length (results (updateResultStatus i st url err s)) = length (results s)"
  "selectedModel (updateResultStatus i st url err s) = selectedModel s"
  "hasKey (updateResultStatus i st url err s) = hasKey s"
  "logs (updateResultStatus i st url err s) = logs s"
  "tokenUsage (updateResultStatus i st url err s) = tokenUsage s"
  by (simp_all add: updateResultStatus_def map_update_same [where g = "\<lambda>x. x\<lparr>status := st, imageUrl := url, error := err\<rparr>"])

lemma updateResultStatus_nth:
  "j < length (results s) \<Longrightarrow>
   results (updateResultStatus i st url err s) ! j =
     (if j = i then (results s ! i)\<lparr>status := st, imageUrl := url, error := err\<rparr>
      else results s ! j)"
  by (simp add: updateResultStatus_def)

lemma log_frame:
  "results (log msg ty s) = results s"
  "selectedModel (log msg ty s) = selectedModel s"
  "hasKey (log msg ty s) = hasKey s"
  "tokenUsage (log msg ty s) = tokenUsage s"
  "logs (log msg ty s) = logs s @ [\<lparr>message = msg, log_type = ty\<rparr>]"
  by (simp_all add: log_def)

lemma process_loop_frame:
  "map promptText (results (process_loop env i tasks s)) = map promptText (results s)
   \<and> map promptName (results (process_loop env i tasks s)) = map promptName (results s)
   \<and> map files (results (process_loop env i tasks s)) = map files (results s)
   \<and> length (results (process_loop env i tasks s)) = length (results s)
   \<and> selectedModel (process_loop env i tasks s) = selectedModel s"
proof (induction env i tasks s rule: process_loop.induct)
  case (1 env i tasks s)
  show ?case
  proof (cases "i < length tasks")
    case False
    then show ?thesis by (simp add: process_loop.simps)
  next
    case True
    show ?thesis
      using True 1
      by (subst (1 2 3 4 5) process_loop.simps)
         (auto simp add: Let_def updateResultStatus_frame log_frame split: sum.splits)
  qed
qed

lemma ex_from_split:
  "i < j \<Longrightarrow> (\<exists>k\<in>{i..<j}. P k) \<longleftrightarrow> P i \<or> (\<exists>k\<in>{Suc i..<j}. P k)"
  by (metis atLeastLessThan_iff le_eq_less_or_eq Suc_le_eq order_refl)

lemma process_loop_below:
  "j < i \<Longrightarrow> results (process_loop env i tasks s) ! j = results s ! j"
proof (induction env i tasks s rule: process_loop.induct)
  case (1 env i tasks s)
  show ?case
  proof (cases "i < length tasks")
    case False
    then show ?thesis by (simp add: process_loop.simps)
  next
    case True
    show ?thesis
      using True 1
      by (subst process_loop.simps)
         (auto simp add: Let_def updateResultStatus_def log_def split: sum.splits)
  qed
qed

lemma process_loop_status:
  assumes "length (results s) = length tasks" and "i \<le> j" and "j < length tasks"
  shows "status (results (process_loop env i tasks s) ! j) =
           (if \<exists>k\<in>{i..<j}. keyErrorAt env tasks (selectedModel s) k
            then status (results s ! j)
            else (case outcome env tasks (selectedModel s) j of
                    Inl msg \<Rightarrow> Failed | Inr r \<Rightarrow> Completed))"
  using assms
proof (induction env i tasks s rule: process_loop.induct)
  case (1 env i tasks s)
  let ?m = "selectedModel s"
  let ?task = "tasks ! i"
  let ?s1 = "log (ProcessingTask (i + 1) (length tasks) (promptName ?task)) Info
               (updateResultStatus i Processing None None s)"
  from 1 have i: "i < length tasks" by simp
  have len: "length (results s) = length tasks" using 1 by simp
  show ?case
  proof (cases "outcome env tasks ?m i")
    case (Inr r)
    obtain url usage where r: "r = (url, usage)" by (cases r)
    let ?s' = "log (SuccessGenerated (promptName ?task) usage) Success
                 (updateResultStatus i Completed (Some url) None
                    (?s1\<lparr>tokenUsage :=
                          addItem (u_input usage) (u_output_text usage)
                            (u_output_image usage) ?m
                            (fromJSON (toJSON (tokenUsage ?s1)))\<rparr>))"
    have gen: "generateImageFromReference env i (files ?task) (promptText ?task) ?m
                 = Inr (url, usage)"
      using Inr r by (simp add: outcome_def)
    have unf: "process_loop env i tasks s = process_loop env (i + 1) tasks ?s'"
      using i gen by (subst process_loop.simps) (simp add: Let_def)
    have nokey: "\<not> keyErrorAt env tasks ?m i" using Inr by (simp add: keyErrorAt_def)
    have len': "length (results ?s') = length tasks"
      using len by (simp add: log_def updateResultStatus_def)
    have m': "selectedModel ?s' = ?m" by (simp add: log_def updateResultStatus_def)
    show ?thesis
    proof (cases "j = i")
      case True
      have "results (process_loop env (i + 1) tasks ?s') ! i = results ?s' ! i"
        by (rule process_loop_below) simp
      then show ?thesis
        using True unf Inr i len by (simp add: log_def updateResultStatus_def)
    next
      case False
      with 1 have lt: "i < j" by simp
      have IH: "status (results (process_loop env (i + 1) tasks ?s') ! j) =
                 (if \<exists>k\<in>{i + 1..<j}. keyErrorAt env tasks (selectedModel ?s') k
                  then status (results ?s' ! j)
                  else (case outcome env tasks (selectedModel ?s') j of
                          Inl msg \<Rightarrow> Failed | Inr r \<Rightarrow> Completed))"
        using "1.IH"(2)[OF i refl refl gen refl len'] lt "1.prems"(3) by simp
      have sj: "status (results ?s' ! j) = status (results s ! j)"
        using False len "1.prems"(3) by (simp add: log_def updateResultStatus_def)
      show ?thesis
        unfolding unf IH m' sj ex_from_split[OF lt] using nokey by simp
    qed
  next
    case (Inl msg)
    have gen: "generateImageFromReference env i (files ?task) (promptText ?task) ?m = Inl msg"
      using Inl by (simp add: outcome_def)
    let ?s2 = "log (FailedTask (promptName ?task) msg) Error
                 (updateResultStatus i Failed None (Some msg) ?s1)"
    have len2: "length (results ?s2) = length tasks"
      using len by (simp add: log_def updateResultStatus_def)
    have m2: "selectedModel ?s2 = ?m" by (simp add: log_def updateResultStatus_def)
    have s2i: "status (results ?s2 ! i) = Failed"
      using i len by (simp add: log_def updateResultStatus_def)
    have s2j: "j \<noteq> i \<Longrightarrow> status (results ?s2 ! j) = status (results s ! j)"
      using len "1.prems"(3) by (simp add: log_def updateResultStatus_def)
    show ?thesis
    proof (cases "isKeyError msg")
      case True
      have key: "keyErrorAt env tasks ?m i" using Inl True by (simp add: keyErrorAt_def)
      have unf: "results (process_loop env i tasks s) = results ?s2"
        using i gen True by (subst process_loop.simps) (simp add: Let_def log_def)
      show ?thesis
      proof (cases "j = i")
        case True
        then show ?thesis using unf s2i Inl by simp
      next
        case False
        with 1 have lt: "i < j" by simp
        show ?thesis unfolding unf ex_from_split[OF lt] using key s2j[OF False] by simp
      qed
    next
      case False
      have nokey: "\<not> keyErrorAt env tasks ?m i" using Inl False by (simp add: keyErrorAt_def)
      have unf: "process_loop env i tasks s = process_loop env (i + 1) tasks ?s2"
        using i gen False by (subst process_loop.simps) (simp add: Let_def)
      show ?thesis
      proof (cases "j = i")
        case True
        have "results (process_loop env (i + 1) tasks ?s2) ! i = results ?s2 ! i"
          by (rule process_loop_below) simp
        then show ?thesis using True unf s2i Inl by simp
      next
        case ji: False
        with 1 have lt: "i < j" by simp
        have IH: "status (results (process_loop env (i + 1) tasks ?s2) ! j) =
                   (if \<exists>k\<in>{i + 1..<j}. keyErrorAt env tasks (selectedModel ?s2) k
                    then status (results ?s2 ! j)
                    else (case outcome env tasks (selectedModel ?s2) j of
                            Inl msg \<Rightarrow> Failed | Inr r \<Rightarrow> Completed))"
          using "1.IH"(1)[OF i refl refl gen refl False len2] lt "1.prems"(3) by simp
        show ?thesis
          unfolding unf IH m2 s2j[OF ji] ex_from_split[OF lt] using nokey by simp
      qed
    qed
  qed
qed

lemma process_loop_hasKey:
  "hasKey (process_loop env i tasks s) =
     (hasKey s \<and> \<not> (aistudio env
                      \<and> (\<exists>k\<in>{i..<length tasks}. keyErrorAt env tasks (selectedModel s) k)))"
proof (induction env i tasks s rule: process_loop.induct)
  case (1 env i tasks s)
  show ?case
  proof (cases "i < length tasks")
    case False
    then show ?thesis by (simp add: process_loop.simps)
  next
    case True
    show ?thesis
      using True 1
      by (subst process_loop.simps)
         (auto simp add: Let_def updateResultStatus_def log_def keyErrorAt_def outcome_def
               ex_from_split[OF True] split: sum.splits)
  qed
qed

lemma handleProcess_started:
  assumes "batchStarts s d"
  shows "handleProcess env s =
           log (Text ''Batch processing finished.'') Success
             ((process_loop env 0 (queuedTasks env s d)
                (log (Queued (length (queuedTasks env s d))) Info
                   ((log (StartingBatch (length (selectedFiles s))) Info
                       (s\<lparr>isProcessing := True, results := []\<rparr>))
                    \<lparr>results := queuedTasks env s d\<rparr>)))
              \<lparr>isProcessing := False\<rparr>)"
  using assms by (simp add: handleProcess_def batchStarts_def queuedTasks_def Let_def)

lemma handleProcess_results:
  assumes "batchStarts s d"
  shows "results (handleProcess env s) =
           results (process_loop env 0 (queuedTasks env s d)
             (log (Queued (length (queuedTasks env s d))) Info
                ((log (StartingBatch (length (selectedFiles s))) Info
                    (s\<lparr>isProcessing := True, results := []\<rparr>))
                 \<lparr>results := queuedTasks env s d\<rparr>)))"
  by (simp add: handleProcess_started[OF assms] log_def)

lemma handleProcess_hasKey:
  assumes "batchStarts s d"
  shows "hasKey (handleProcess env s) =
           hasKey (process_loop env 0 (queuedTasks env s d)
             (log (Queued (length (queuedTasks env s d))) Info
                ((log (StartingBatch (length (selectedFiles s))) Info
                    (s\<lparr>isProcessing := True, results := []\<rparr>))
                 \<lparr>results := queuedTasks env s d\<rparr>)))"
  by (simp add: handleProcess_started[OF assms] log_def)

lemma queuedTasks_nth_status:
  "j < length (queuedTasks env s d) \<Longrightarrow> status (queuedTasks env s d ! j) = Pending"
proof -
  assume j: "j < length (queuedTasks env s d)"
  have "map status (queuedTasks env s d) = replicate (length (enabledPrompts d)) Pending"
    by (simp add: queuedTasks_def buildTasks_status)
  moreover have "status (queuedTasks env s d ! j) = map status (queuedTasks env s d) ! j"
    using j by simp
  moreover have "j < length (enabledPrompts d)"
    using j by (simp add: queuedTasks_def buildTasks_length)
  ultimately show ?thesis by simp
qed

lemma process_loop_frame_nth:
  assumes "k < length (results s)"
  shows "promptText (results (process_loop env i tasks s) ! k) = promptText (results s ! k)"
proof -
  have "map promptText (results (process_loop env i tasks s)) ! k = map promptText (results s) ! k"
    by (simp add: process_loop_frame)
  moreover have "k < length (results (process_loop env i tasks s))"
    using assms by (simp add: process_loop_frame)
  ultimately show ?thesis using assms by simp
qed

lemma queuedTasks_promptText:
  assumes "k < length (enabledPrompts d)"
  shows "promptText (queuedTasks env s d ! k) = fullPrompt d (enabledPrompts d ! k)"
proof -
  have "map promptText (queuedTasks env s d) = map (fullPrompt d) (enabledPrompts d)"
    by (simp add: queuedTasks_def buildTasks_promptText)
  moreover have "k < length (queuedTasks env s d)"
    using assms by (simp add: queuedTasks_def buildTasks_length)
  ultimately show ?thesis using assms by (metis nth_map)
qed

subsection \<open>Task construction\<close>

text \<open>
  Claim C1, as the code has it. When the batch starts, one task is queued per prompt that
  is enabled and whose name is not blank (not empty after \<open>trim\<close>), in list order, and it
  stays in the results under that prompt's name; every task carries the full list of
  selected files. For a prompt whose skip flag is not set, the composed text is the
  trimmed concatenation of the before-text, the prompt's text and the after-text, with a
  newline after a non-empty before-text and before a non-empty after-text; unless the
  prompt's text is empty while both surrounding texts are not, that is the trimmed join
  of the non-empty segments with a newline. Nothing is said of a prompt whose skip flag
  is set.
\<close>

theorem tasks_built_from_enabled_named_prompts:
  assumes "batchStarts s d"
  shows "enabledPrompts d = filter (\<lambda>p. enabled p \<and> trim (name p) \<noteq> []) (prompts d)
     \<and> map promptName (results (handleProcess env s)) = map name (enabledPrompts d)
     \<and> map files (results (handleProcess env s))
         = replicate (length (enabledPrompts d)) (selectedFiles s)
     \<and> (\<forall>k<length (enabledPrompts d).
           \<not> skip_beforeafter_prompt (enabledPrompts d ! k) \<longrightarrow>
           promptText (results (handleProcess env s) ! k) =
             trim (or_empty (prompt_before d)
                   @ (if or_empty (prompt_before d) \<noteq> [] then newline else [])
                   @ prompt (enabledPrompts d ! k)
                   @ (if or_empty (prompt_after d) \<noteq> [] then newline else [])
                   @ or_empty (prompt_after d)))
     \<and> (\<forall>k<length (enabledPrompts d).
           \<not> skip_beforeafter_prompt (enabledPrompts d ! k) \<longrightarrow>
           \<not> (prompt (enabledPrompts d ! k) = [] \<and> or_empty (prompt_before d) \<noteq> []
              \<and> or_empty (prompt_after d) \<noteq> []) \<longrightarrow>
           promptText (results (handleProcess env s) ! k) =
             trim (spec_fullText d (enabledPrompts d ! k)))"
proof -
  let ?tasks = "queuedTasks env s d"
  let ?s3 = "log (Queued (length ?tasks)) Info
                ((log (StartingBatch (length (selectedFiles s))) Info
                    (s\<lparr>isProcessing := True, results := []\<rparr>))
                 \<lparr>results := ?tasks\<rparr>)"
  have r: "results ?s3 = ?tasks" by (simp add: log_def)
  have res: "results (handleProcess env s) = results (process_loop env 0 ?tasks ?s3)"
    by (rule handleProcess_results[OF assms])
  have len: "length ?tasks = length (enabledPrompts d)"
    by (simp add: queuedTasks_def buildTasks_length)
  have names: "map promptName (results (handleProcess env s)) = map name (enabledPrompts d)"
    unfolding res by (simp add: process_loop_frame log_def queuedTasks_def buildTasks_promptName)
  have fs: "map files (results (handleProcess env s))
             = replicate (length (enabledPrompts d)) (selectedFiles s)"
    unfolding res by (simp add: process_loop_frame log_def queuedTasks_def buildTasks_files)
  have pt: "promptText (results (handleProcess env s) ! k) = fullPrompt d (enabledPrompts d ! k)"
    if "k < length (enabledPrompts d)" for k
  proof -
    have "k < length (results ?s3)" using that len r by simp
    then have "promptText (results (process_loop env 0 ?tasks ?s3) ! k) = promptText (results ?s3 ! k)"
      by (rule process_loop_frame_nth)
    then show ?thesis unfolding res r by (simp add: queuedTasks_promptText[OF that])
  qed
  have t1: "\<forall>k<length (enabledPrompts d).
           \<not> skip_beforeafter_prompt (enabledPrompts d ! k) \<longrightarrow>
           promptText (results (handleProcess env s) ! k) =
             trim (or_empty (prompt_before d)
                   @ (if or_empty (prompt_before d) \<noteq> [] then newline else [])
                   @ prompt (enabledPrompts d ! k)
                   @ (if or_empty (prompt_after d) \<noteq> [] then newline else [])
                   @ or_empty (prompt_after d))"
    using pt by (simp add: fullPrompt_def Let_def)
  have t2: "\<forall>k<length (enabledPrompts d).
           \<not> skip_beforeafter_prompt (enabledPrompts d ! k) \<longrightarrow>
           \<not> (prompt (enabledPrompts d ! k) = [] \<and> or_empty (prompt_before d) \<noteq> []
              \<and> or_empty (prompt_after d) \<noteq> []) \<longrightarrow>
           promptText (results (handleProcess env s) ! k) =
             trim (spec_fullText d (enabledPrompts d ! k))"
  proof (intro allI impI)
    fix k assume k: "k < length (enabledPrompts d)"
      and sk: "\<not> skip_beforeafter_prompt (enabledPrompts d ! k)"
      and ne: "\<not> (prompt (enabledPrompts d ! k) = [] \<and> or_empty (prompt_before d) \<noteq> []
              \<and> or_empty (prompt_after d) \<noteq> [])"
    show "promptText (results (handleProcess env s) ! k) =
             trim (spec_fullText d (enabledPrompts d ! k))"
      using pt[OF k] fullPrompt_spec_join[OF ne] sk by (simp add: spec_fullText_def)
  qed
  show ?thesis using names fs t1 t2 by (simp add: enabledPrompts_def)
qed

theorem tasks_built_from_enabled_named_prompts_witness:
  "batchStarts app_A doc_A
   \<and> map promptName (results (handleProcess env_ok app_A)) = [''wide'', ''close'']
   \<and> map files (results (handleProcess env_ok app_A)) = [[''ref.png''], [''ref.png'']]
   \<and> promptText (results (handleProcess env_ok app_A) ! 0) = ''Edit:'' @ newline @ ''wide shot''
   \<and> promptText (results (handleProcess env_ok app_A) ! 1) = ''Edit:'' @ newline @ ''close-up''"
proof -
  have b: "batchStarts app_A doc_A" by code_simp
  note th = tasks_built_from_enabled_named_prompts[OF b, of env_ok]
  have n: "map name (enabledPrompts doc_A) = [''wide'', ''close'']" by code_simp
  have f: "replicate (length (enabledPrompts doc_A)) (selectedFiles app_A)
             = [[''ref.png''], [''ref.png'']]"
    by code_simp
  have k: "0 < length (enabledPrompts doc_A)" "1 < length (enabledPrompts doc_A)"
    by code_simp+
  have sk: "\<not> skip_beforeafter_prompt (enabledPrompts doc_A ! 0)"
           "\<not> skip_beforeafter_prompt (enabledPrompts doc_A ! 1)"
    by code_simp+
  have ne: "\<not> (prompt (enabledPrompts doc_A ! 0) = [] \<and> or_empty (prompt_before doc_A) \<noteq> []
              \<and> or_empty (prompt_after doc_A) \<noteq> [])"
           "\<not> (prompt (enabledPrompts doc_A ! 1) = [] \<and> or_empty (prompt_before doc_A) \<noteq> []
              \<and> or_empty (prompt_after doc_A) \<noteq> [])"
    by code_simp+
  have v: "trim (spec_fullText doc_A (enabledPrompts doc_A ! 0)) = ''Edit:'' @ newline @ ''wide shot''"
          "trim (spec_fullText doc_A (enabledPrompts doc_A ! 1)) = ''Edit:'' @ newline @ ''close-up''"
    by code_simp+
  from th have c2: "map promptName (results (handleProcess env_ok app_A))
                     = map name (enabledPrompts doc_A)"
    by (elim conjE)
  from th have c3: "map files (results (handleProcess env_ok app_A))
                     = replicate (length (enabledPrompts doc_A)) (selectedFiles app_A)"
    by (elim conjE)
  from th have c5: "\<forall>k<length (enabledPrompts doc_A).
           \<not> skip_beforeafter_prompt (enabledPrompts doc_A ! k) \<longrightarrow>
           \<not> (prompt (enabledPrompts doc_A ! k) = [] \<and> or_empty (prompt_before doc_A) \<noteq> []
              \<and> or_empty (prompt_after doc_A) \<noteq> []) \<longrightarrow>
           promptText (results (handleProcess env_ok app_A) ! k) =
             trim (spec_fullText doc_A (enabledPrompts doc_A ! k))"
    by (elim conjE)
  have t0: "promptText (results (handleProcess env_ok app_A) ! 0)
             = ''Edit:'' @ newline @ ''wide shot''"
    using c5[rule_format, OF k(1) sk(1) ne(1)] v(1) by simp
  have t1: "promptText (results (handleProcess env_ok app_A) ! 1)
             = ''Edit:'' @ newline @ ''close-up''"
    using c5[rule_format, OF k(2) sk(2) ne(2)] v(2) by simp
  show ?thesis using b c2 c3 n f t0 t1 by simp
qed

text \<open>
  The claim as worded fails on \<open>doc_blank\<close>: it has two enabled prompts, for which the
  wording gives two texts, untrimmed and without an empty line; the batch queues one
  task, for the prompt with a name, and its text is trimmed and has an empty line where
  the prompt's own text is empty.
\<close>

theorem composed_prompt_counterexample:
  "map promptText (results (handleProcess env_ok (app_of doc_blank [''ref.png''])))
     = [''Edit:'' @ newline @ newline @ ''Go'']
   \<and> map (spec_fullText doc_blank) (filter enabled (prompts doc_blank))
     = [''Edit:'' @ newline @ ''x'' @ newline @ ''Go '', ''Edit:'' @ newline @ ''Go '']"
  by code_simp

subsection \<open>Failures during the batch\<close>

lemma process_loop_logs:
  "\<exists>ys. logs (process_loop env i tasks s) = logs s @ ys
        \<and> (keyWarning \<in> set ys \<longleftrightarrow>
             (\<exists>k\<in>{i..<length tasks}. keyErrorAt env tasks (selectedModel s) k))"
proof (induction env i tasks s rule: process_loop.induct)
  case (1 env i tasks s)
  let ?m = "selectedModel s"
  let ?task = "tasks ! i"
  let ?s1 = "log (ProcessingTask (i + 1) (length tasks) (promptName ?task)) Info
               (updateResultStatus i Processing None None s)"
  show ?case
  proof (cases "i < length tasks")
    case False
    then show ?thesis by (simp add: process_loop.simps)
  next
    case i: True
    show ?thesis
    proof (cases "generateImageFromReference env i (files ?task) (promptText ?task) ?m")
      case (Inr r)
      obtain url usage where r: "r = (url, usage)" by (cases r)
      let ?s' = "log (SuccessGenerated (promptName ?task) usage) Success
                   (updateResultStatus i Completed (Some url) None
                      (?s1\<lparr>tokenUsage :=
                            addItem (u_input usage) (u_output_text usage)
                              (u_output_image usage) ?m
                              (fromJSON (toJSON (tokenUsage ?s1)))\<rparr>))"
      have gen: "generateImageFromReference env i (files ?task) (promptText ?task) ?m
                   = Inr (url, usage)"
        using Inr r by simp
      have unf: "process_loop env i tasks s = process_loop env (i + 1) tasks ?s'"
        using i gen by (subst process_loop.simps) (simp add: Let_def)
      have nokey: "\<not> keyErrorAt env tasks ?m i"
        using gen by (simp add: keyErrorAt_def outcome_def)
      have l': "logs ?s' = logs s @
                  [\<lparr>message = ProcessingTask (i + 1) (length tasks) (promptName ?task),
                    log_type = Info\<rparr>,
                   \<lparr>message = SuccessGenerated (promptName ?task) usage, log_type = Success\<rparr>]"
        by (simp add: log_def updateResultStatus_def)
      have m': "selectedModel ?s' = ?m" by (simp add: log_def updateResultStatus_def)
      from "1.IH"(2)[OF i refl refl gen refl]
      obtain ys where ys: "logs (process_loop env (i + 1) tasks ?s') = logs ?s' @ ys"
        and w: "keyWarning \<in> set ys \<longleftrightarrow>
                  (\<exists>k\<in>{i + 1..<length tasks}. keyErrorAt env tasks (selectedModel ?s') k)"
        by blast
      show ?thesis
        unfolding unf ys l' ex_from_split[OF i]
        using w nokey m' by (simp add: keyWarning_def)
    next
      case (Inl msg)
      let ?s2 = "log (FailedTask (promptName ?task) msg) Error
                   (updateResultStatus i Failed None (Some msg) ?s1)"
      have l2: "logs ?s2 = logs s @
                  [\<lparr>message = ProcessingTask (i + 1) (length tasks) (promptName ?task),
                    log_type = Info\<rparr>,
                   \<lparr>message = FailedTask (promptName ?task) msg, log_type = Error\<rparr>]"
        by (simp add: log_def updateResultStatus_def)
      have m2: "selectedModel ?s2 = ?m" by (simp add: log_def updateResultStatus_def)
      show ?thesis
      proof (cases "isKeyError msg")
        case True
        have key: "keyErrorAt env tasks ?m i"
          using Inl True by (simp add: keyErrorAt_def outcome_def)
        have unf: "logs (process_loop env i tasks s) = logs ?s2 @ [keyWarning]"
          using i Inl True
          by (subst process_loop.simps) (simp add: Let_def log_def keyWarning_def)
        show ?thesis
          unfolding unf l2 ex_from_split[OF i] using key by simp
      next
        case False
        have nokey: "\<not> keyErrorAt env tasks ?m i"
          using Inl False by (simp add: keyErrorAt_def outcome_def)
        have unf: "process_loop env i tasks s = process_loop env (i + 1) tasks ?s2"
          using i Inl False by (subst process_loop.simps) (simp add: Let_def)
        from "1.IH"(1)[OF i refl refl Inl refl False]
        obtain ys where ys: "logs (process_loop env (i + 1) tasks ?s2) = logs ?s2 @ ys"
          and w: "keyWarning \<in> set ys \<longleftrightarrow>
                    (\<exists>k\<in>{i + 1..<length tasks}. keyErrorAt env tasks (selectedModel ?s2) k)"
          by blast
        show ?thesis
          unfolding unf ys l2 ex_from_split[OF i]
          using w nokey m2 by (simp add: keyWarning_def)
      qed
    qed
  qed
qed

lemma batchLogs_keyWarning:
  assumes "batchStarts s d"
  shows "keyWarning \<in> set (batchLogs env s) \<longleftrightarrow>
           (\<exists>k\<in>{0..<length (queuedTasks env s d)}.
               keyErrorAt env (queuedTasks env s d) (selectedModel s) k)"
proof -
  let ?tasks = "queuedTasks env s d"
  let ?s3 = "log (Queued (length ?tasks)) Info
                ((log (StartingBatch (length (selectedFiles s))) Info
                    (s\<lparr>isProcessing := True, results := []\<rparr>))
                 \<lparr>results := ?tasks\<rparr>)"
  have l3: "logs ?s3 = logs s @ [\<lparr>message = StartingBatch (length (selectedFiles s)), log_type = Info\<rparr>,
                                 \<lparr>message = Queued (length ?tasks), log_type = Info\<rparr>]"
    by (simp add: log_def)
  have m: "selectedModel ?s3 = selectedModel s" by (simp add: log_def)
  obtain ys where ys: "logs (process_loop env 0 ?tasks ?s3) = logs ?s3 @ ys"
    and w: "keyWarning \<in> set ys \<longleftrightarrow>
              (\<exists>k\<in>{0..<length ?tasks}. keyErrorAt env ?tasks (selectedModel ?s3) k)"
    using process_loop_logs[of env 0 ?tasks ?s3] by blast
  have "logs (handleProcess env s) =
          logs (process_loop env 0 ?tasks ?s3)
          @ [\<lparr>message = Text ''Batch processing finished.'', log_type = Success\<rparr>]"
    by (simp add: handleProcess_started[OF assms] log_def)
  then have "batchLogs env s =
          [\<lparr>message = StartingBatch (length (selectedFiles s)), log_type = Info\<rparr>,
           \<lparr>message = Queued (length ?tasks), log_type = Info\<rparr>] @ ys
          @ [\<lparr>message = Text ''Batch processing finished.'', log_type = Success\<rparr>]"
    unfolding batchLogs_def ys l3 by simp
  then show ?thesis using w m by (simp add: keyWarning_def)
qed

text \<open>
  Claim C2, as the code has it. When the batch starts, the task at position \<open>j\<close> ends
  \<open>Pending\<close> if an earlier call failed with a key error (the batch stopped there), and
  otherwise ends \<open>Failed\<close> when its own call threw and \<open>Completed\<close> when it returned: a
  failure that is not a key error does not stop the batch. The key flag \<open>hasKey\<close> is cleared
  exactly when some call failed with a key error and \<open>window.aistudio\<close> is present. The
  warning that the key might be invalid or expired is among the entries the batch logs
  exactly when some call failed with a key error, with or without \<open>window.aistudio\<close>.
\<close>

theorem batch_failure_policy:
  assumes "batchStarts s d" and "j < length (queuedTasks env s d)"
  shows "status (results (handleProcess env s) ! j) =
           (if \<exists>k\<in>{0..<j}. keyErrorAt env (queuedTasks env s d) (selectedModel s) k
            then Pending
            else (case outcome env (queuedTasks env s d) (selectedModel s) j of
                    Inl msg \<Rightarrow> Failed | Inr r \<Rightarrow> Completed))
         \<and> (hasKey (handleProcess env s) \<longleftrightarrow>
              \<not> (aistudio env \<and>
                 (\<exists>k\<in>{0..<length (queuedTasks env s d)}.
                     keyErrorAt env (queuedTasks env s d) (selectedModel s) k)))
         \<and> (keyWarning \<in> set (batchLogs env s) \<longleftrightarrow>
              (\<exists>k\<in>{0..<length (queuedTasks env s d)}.
                  keyErrorAt env (queuedTasks env s d) (selectedModel s) k))"
proof -
  let ?tasks = "queuedTasks env s d"
  let ?s3 = "log (Queued (length ?tasks)) Info
                ((log (StartingBatch (length (selectedFiles s))) Info
                    (s\<lparr>isProcessing := True, results := []\<rparr>))
                 \<lparr>results := ?tasks\<rparr>)"
  have r: "results ?s3 = ?tasks" by (simp add: log_def)
  have m: "selectedModel ?s3 = selectedModel s" by (simp add: log_def)
  have k: "hasKey ?s3" using assms(1) by (simp add: log_def batchStarts_def)
  have len: "length (results ?s3) = length ?tasks" using r by simp
  have st: "status (results (process_loop env 0 ?tasks ?s3) ! j) =
           (if \<exists>k\<in>{0..<j}. keyErrorAt env ?tasks (selectedModel ?s3) k
            then status (results ?s3 ! j)
            else (case outcome env ?tasks (selectedModel ?s3) j of
                    Inl msg \<Rightarrow> Failed | Inr r \<Rightarrow> Completed))"
    by (rule process_loop_status[OF len _ assms(2)]) simp
  have hk: "hasKey (process_loop env 0 ?tasks ?s3) =
     (hasKey ?s3 \<and> \<not> (aistudio env
                      \<and> (\<exists>k\<in>{0..<length ?tasks}. keyErrorAt env ?tasks (selectedModel ?s3) k)))"
    by (rule process_loop_hasKey)
  have a: "status (results (handleProcess env s) ! j) =
           (if \<exists>k\<in>{0..<j}. keyErrorAt env ?tasks (selectedModel s) k
            then Pending
            else (case outcome env ?tasks (selectedModel s) j of
                    Inl msg \<Rightarrow> Failed | Inr r \<Rightarrow> Completed))
         \<and> (hasKey (handleProcess env s) \<longleftrightarrow>
              \<not> (aistudio env \<and>
                 (\<exists>k\<in>{0..<length ?tasks}. keyErrorAt env ?tasks (selectedModel s) k)))"
    unfolding handleProcess_results[OF assms(1)] handleProcess_hasKey[OF assms(1)] st hk
    unfolding r m using k queuedTasks_nth_status[OF assms(2)] by simp
  show ?thesis using a batchLogs_keyWarning[OF assms(1), of env] by blast
qed

theorem batch_failure_policy_witness:
  "batchStarts app_B doc_B
   \<and> status (results (handleProcess (env_keyfail True) app_B) ! 2) = Pending
   \<and> \<not> hasKey (handleProcess (env_keyfail True) app_B)
   \<and> keyWarning \<in> set (batchLogs (env_keyfail True) app_B)
   \<and> keyWarning \<in> set (batchLogs (env_keyfail False) app_B)"
proof -
  have b: "batchStarts app_B doc_B" by code_simp
  have l: "length (queuedTasks (env_keyfail studio) app_B doc_B) = 3" for studio
    by (simp add: queuedTasks_def buildTasks_length) code_simp
  then have j: "2 < length (queuedTasks (env_keyfail studio) app_B doc_B)" for studio
    by simp
  have k: "keyErrorAt (env_keyfail studio) (queuedTasks (env_keyfail studio) app_B doc_B)
             (selectedModel app_B) 1" for studio
    by (cases studio) (simp_all, code_simp+)
  have a: "aistudio (env_keyfail True)" by code_simp
  have e2: "\<exists>k\<in>{0..<2}. keyErrorAt (env_keyfail True)
               (queuedTasks (env_keyfail True) app_B doc_B) (selectedModel app_B) k"
    using k[of True] by (intro bexI[of _ 1]) simp_all
  have e3: "\<exists>k\<in>{0..<length (queuedTasks (env_keyfail studio) app_B doc_B)}.
              keyErrorAt (env_keyfail studio)
               (queuedTasks (env_keyfail studio) app_B doc_B) (selectedModel app_B) k"
    for studio
    unfolding l using k[of studio] by (intro bexI[of _ 1]) simp_all
  from batch_failure_policy[OF b j[of True]] e2 e3[of True] a
  have t: "status (results (handleProcess (env_keyfail True) app_B) ! 2) = Pending
           \<and> \<not> hasKey (handleProcess (env_keyfail True) app_B)
           \<and> keyWarning \<in> set (batchLogs (env_keyfail True) app_B)"
    by simp
  from batch_failure_policy[OF b j[of False]] e3[of False]
  have f: "keyWarning \<in> set (batchLogs (env_keyfail False) app_B)"
    by simp
  show ?thesis using b t f by simp
qed

text \<open>
  The claim as worded fails where \<open>window.aistudio\<close> is absent: three tasks, the second
  call fails with the key error; the batch stops as claimed, and the flag is not raised.
\<close>

theorem key_error_without_aistudio_counterexample:
  "isKeyError ''Requested entity was not found.''
   \<and> map status (results (handleProcess (env_keyfail False) app_B)) = [Completed, Failed, Pending]
   \<and> hasKey (handleProcess (env_keyfail False) app_B)"
  by code_simp

subsection \<open>Prompts with blank names\<close>

text \<open>The composed text does not depend on the skip flag: \<open>handleProcess\<close> never reads it.\<close>

lemma fullPrompt_ignores_skip:
  "fullPrompt d (p\<lparr>skip_beforeafter_prompt := b\<rparr>) = fullPrompt d p"
  by (simp add: fullPrompt_def)

lemma buildTasks_prompts_irrelevant:
  "buildTasks env (d\<lparr>prompts := ps'\<rparr>) fs ps acc = buildTasks env d fs ps acc"
  by (induction ps arbitrary: acc) (simp_all add: fullPrompt_def)

lemma enabledPrompts_drop_blank:
  "enabledPrompts (d\<lparr>prompts := filter (\<lambda>p. \<not> (enabled p \<and> trim (name p) = [])) (prompts d)\<rparr>)
     = enabledPrompts d"
  by (auto simp add: enabledPrompts_def intro: filter_cong)

lemma enabledPrompts_all_disabled:
  "enabledPrompts (d\<lparr>prompts := map (\<lambda>p. p\<lparr>enabled := False\<rparr>) ps\<rparr>) = []"
  by (simp add: enabledPrompts_def)

lemma process_loop_userDoc:
  "process_loop env i tasks (s\<lparr>userDoc := x\<rparr>) = (process_loop env i tasks s)\<lparr>userDoc := x\<rparr>"
proof (induction env i tasks s rule: process_loop.induct)
  case (1 env i tasks s)
  let ?task = "tasks ! i"
  let ?sx = "s\<lparr>userDoc := x\<rparr>"
  let ?s1 = "log (ProcessingTask (i + 1) (length tasks) (promptName ?task)) Info
               (updateResultStatus i Processing None None s)"
  let ?s1x = "log (ProcessingTask (i + 1) (length tasks) (promptName ?task)) Info
               (updateResultStatus i Processing None None ?sx)"
  show ?case
  proof (cases "i < length tasks")
    case False
    then show ?thesis by (simp add: process_loop.simps)
  next
    case i: True
    show ?thesis
    proof (cases "generateImageFromReference env i (files ?task) (promptText ?task)
                    (selectedModel s)")
      case (Inr r)
      obtain url usage where r: "r = (url, usage)" by (cases r)
      let ?s' = "log (SuccessGenerated (promptName ?task) usage) Success
                   (updateResultStatus i Completed (Some url) None
                      (?s1\<lparr>tokenUsage :=
                            addItem (u_input usage) (u_output_text usage)
                              (u_output_image usage) (selectedModel s)
                              (fromJSON (toJSON (tokenUsage ?s1)))\<rparr>))"
      let ?s'x = "log (SuccessGenerated (promptName ?task) usage) Success
                   (updateResultStatus i Completed (Some url) None
                      (?s1x\<lparr>tokenUsage :=
                            addItem (u_input usage) (u_output_text usage)
                              (u_output_image usage) (selectedModel s)
                              (fromJSON (toJSON (tokenUsage ?s1x)))\<rparr>))"
      have gen: "generateImageFromReference env i (files ?task) (promptText ?task)
                   (selectedModel s) = Inr (url, usage)"
        using Inr r by simp
      have unf: "process_loop env i tasks s = process_loop env (i + 1) tasks ?s'"
        using i gen by (subst process_loop.simps) (simp add: Let_def)
      have unfx: "process_loop env i tasks ?sx = process_loop env (i + 1) tasks ?s'x"
        using i gen by (subst process_loop.simps) (simp add: Let_def)
      have eq: "?s'x = ?s'\<lparr>userDoc := x\<rparr>"
        by (cases s) (simp add: log_def updateResultStatus_def)
      show ?thesis
        unfolding unf unfx eq by (rule "1.IH"(2)[OF i refl refl gen refl])
    next
      case (Inl msg)
      let ?s2 = "log (FailedTask (promptName ?task) msg) Error
                   (updateResultStatus i Failed None (Some msg) ?s1)"
      let ?s2x = "log (FailedTask (promptName ?task) msg) Error
                   (updateResultStatus i Failed None (Some msg) ?s1x)"
      have eq: "?s2x = ?s2\<lparr>userDoc := x\<rparr>"
        by (cases s) (simp add: log_def updateResultStatus_def)
      show ?thesis
      proof (cases "isKeyError msg")
        case True
        let ?s3 = "log (Text ''API Key might be invalid or expired. Check environment or re-select key.'')
                     Error ?s2"
        let ?s3x = "log (Text ''API Key might be invalid or expired. Check environment or re-select key.'')
                     Error ?s2x"
        have unf: "process_loop env i tasks s = (if aistudio env then ?s3\<lparr>hasKey := False\<rparr> else ?s3)"
          using i Inl True by (subst process_loop.simps) (simp add: Let_def)
        have unfx: "process_loop env i tasks ?sx
                      = (if aistudio env then ?s3x\<lparr>hasKey := False\<rparr> else ?s3x)"
          using i Inl True by (subst process_loop.simps) (simp add: Let_def)
        show ?thesis
          unfolding unf unfx eq by (cases s) (simp add: log_def updateResultStatus_def)
      next
        case False
        have unf: "process_loop env i tasks s = process_loop env (i + 1) tasks ?s2"
          using i Inl False by (subst process_loop.simps) (simp add: Let_def)
        have unfx: "process_loop env i tasks ?sx = process_loop env (i + 1) tasks ?s2x"
          using i Inl False by (subst process_loop.simps) (simp add: Let_def)
        show ?thesis
          unfolding unf unfx eq by (rule "1.IH"(1)[OF i refl refl Inl refl False])
      qed
    qed
  qed
qed

lemma handleProcess_without_blank:
  assumes "batchStarts s d"
  defines "d' \<equiv> d\<lparr>prompts := filter (\<lambda>p. \<not> (enabled p \<and> trim (name p) = [])) (prompts d)\<rparr>"
  shows "handleProcess env (s\<lparr>userDoc := Some d'\<rparr>) = (handleProcess env s)\<lparr>userDoc := Some d'\<rparr>"
proof -
  let ?sx = "s\<lparr>userDoc := Some d'\<rparr>"
  let ?tasks = "queuedTasks env s d"
  let ?s3 = "log (Queued (length ?tasks)) Info
               ((log (StartingBatch (length (selectedFiles s))) Info
                   (s\<lparr>isProcessing := True, results := []\<rparr>))
                \<lparr>results := ?tasks\<rparr>)"
  let ?s3x = "log (Queued (length ?tasks)) Info
               ((log (StartingBatch (length (selectedFiles ?sx))) Info
                   (?sx\<lparr>isProcessing := True, results := []\<rparr>))
                \<lparr>results := ?tasks\<rparr>)"
  have e: "enabledPrompts d' = enabledPrompts d"
    unfolding d'_def by (rule enabledPrompts_drop_blank)
  have q: "queuedTasks env ?sx d' = ?tasks"
    unfolding d'_def
    by (simp only: queuedTasks_def buildTasks_prompts_irrelevant enabledPrompts_drop_blank)
       simp
  have ne: "prompts d' \<noteq> []"
  proof
    assume "prompts d' = []"
    then have "enabledPrompts d' = []" by (simp add: enabledPrompts_def)
    with e assms(1) show False by (simp add: batchStarts_def)
  qed
  have b': "batchStarts ?sx d'"
    using assms(1) e ne by (simp add: batchStarts_def)
  have eq: "?s3x = ?s3\<lparr>userDoc := Some d'\<rparr>" by (cases s) (simp add: log_def)
  have "handleProcess env ?sx =
          log (Text ''Batch processing finished.'') Success
            ((process_loop env 0 ?tasks ?s3x)\<lparr>isProcessing := False\<rparr>)"
    unfolding handleProcess_started[OF b'] q ..
  also have "\<dots> = log (Text ''Batch processing finished.'') Success
            (((process_loop env 0 ?tasks ?s3)\<lparr>userDoc := Some d'\<rparr>)\<lparr>isProcessing := False\<rparr>)"
    unfolding eq process_loop_userDoc ..
  also have "\<dots> = (handleProcess env s)\<lparr>userDoc := Some d'\<rparr>"
    unfolding handleProcess_started[OF assms(1)] by (simp add: log_def)
  finally show ?thesis .
qed

text \<open>
  Claim C10. No queued task comes from a prompt whose name is blank (empty after
  \<open>trim\<close>): the queue is the one of the document with the enabled blank-named prompts
  taken out, and a batch that starts runs as it does on that document, to the same
  results, log, ledger and key flag. And when the document has prompts and every enabled
  one has a blank name, \<open>handleProcess\<close> stops with the error \<open>No prompts selected\<close>,
  which is what it does on the same prompts with none enabled.
\<close>

theorem blank_named_enabled_prompts_excluded:
  "(\<forall>t\<in>set (queuedTasks env s d). trim (promptName t) \<noteq> [])
   \<and> queuedTasks env s d =
       queuedTasks env s
         (d\<lparr>prompts := filter (\<lambda>p. \<not> (enabled p \<and> trim (name p) = [])) (prompts d)\<rparr>)
   \<and> (batchStarts s d \<longrightarrow>
         handleProcess env
           (s\<lparr>userDoc := Some (d\<lparr>prompts :=
                  filter (\<lambda>p. \<not> (enabled p \<and> trim (name p) = [])) (prompts d)\<rparr>)\<rparr>)
         = (handleProcess env s)
             \<lparr>userDoc := Some (d\<lparr>prompts :=
                  filter (\<lambda>p. \<not> (enabled p \<and> trim (name p) = [])) (prompts d)\<rparr>)\<rparr>)
   \<and> (userDoc s = Some d \<and> prompts d \<noteq> []
       \<and> (\<forall>p\<in>set (prompts d). enabled p \<longrightarrow> trim (name p) = []) \<longrightarrow>
         handleProcess env s = log (Text ''Error: No prompts selected.'') Error s
         \<and> handleProcess env
             (s\<lparr>userDoc := Some (d\<lparr>prompts := map (\<lambda>p. p\<lparr>enabled := False\<rparr>) (prompts d)\<rparr>)\<rparr>)
           = log (Text ''Error: No prompts selected.'') Error
               (s\<lparr>userDoc := Some (d\<lparr>prompts := map (\<lambda>p. p\<lparr>enabled := False\<rparr>) (prompts d)\<rparr>)\<rparr>))"
proof (intro conjI impI)
  have "map promptName (queuedTasks env s d) = map name (enabledPrompts d)"
    by (simp add: queuedTasks_def buildTasks_promptName)
  then have "set (map promptName (queuedTasks env s d)) = set (map name (enabledPrompts d))"
    by simp
  then have "promptName ` set (queuedTasks env s d) = name ` set (enabledPrompts d)"
    by simp
  moreover have "\<forall>p\<in>set (enabledPrompts d). trim (name p) \<noteq> []"
    by (simp add: enabledPrompts_def)
  ultimately show "\<forall>t\<in>set (queuedTasks env s d). trim (promptName t) \<noteq> []"
    by (metis imageE imageI)
next
  show "queuedTasks env s d =
       queuedTasks env s
         (d\<lparr>prompts := filter (\<lambda>p. \<not> (enabled p \<and> trim (name p) = [])) (prompts d)\<rparr>)"
    by (simp only: queuedTasks_def buildTasks_prompts_irrelevant enabledPrompts_drop_blank)
next
  assume "batchStarts s d"
  then show "handleProcess env
           (s\<lparr>userDoc := Some (d\<lparr>prompts :=
                  filter (\<lambda>p. \<not> (enabled p \<and> trim (name p) = [])) (prompts d)\<rparr>)\<rparr>)
         = (handleProcess env s)
             \<lparr>userDoc := Some (d\<lparr>prompts :=
                  filter (\<lambda>p. \<not> (enabled p \<and> trim (name p) = [])) (prompts d)\<rparr>)\<rparr>"
    by (rule handleProcess_without_blank)
next
  assume a: "userDoc s = Some d \<and> prompts d \<noteq> []
       \<and> (\<forall>p\<in>set (prompts d). enabled p \<longrightarrow> trim (name p) = [])"
  then have e: "enabledPrompts d = []"
    by (auto simp add: enabledPrompts_def filter_empty_conv)
  show "handleProcess env s = log (Text ''Error: No prompts selected.'') Error s"
    using a e by (simp add: handleProcess_def)
  show "handleProcess env
             (s\<lparr>userDoc := Some (d\<lparr>prompts := map (\<lambda>p. p\<lparr>enabled := False\<rparr>) (prompts d)\<rparr>)\<rparr>)
           = log (Text ''Error: No prompts selected.'') Error
               (s\<lparr>userDoc := Some (d\<lparr>prompts := map (\<lambda>p. p\<lparr>enabled := False\<rparr>) (prompts d)\<rparr>)\<rparr>)"
    using a by (simp add: handleProcess_def enabledPrompts_all_disabled)
qed

theorem blank_named_enabled_prompts_excluded_witness:
  "map promptName (queuedTasks env_ok (app_of doc_blank [''ref.png'']) doc_blank) = [''wide'']
   \<and> trim (promptName (queuedTasks env_ok (app_of doc_blank [''ref.png'']) doc_blank ! 0)) \<noteq> []
   \<and> batchStarts (app_of doc_blank [''ref.png'']) doc_blank
   \<and> results (handleProcess env_ok
        ((app_of doc_blank [''ref.png''])
           \<lparr>userDoc := Some (doc_blank\<lparr>prompts :=
              filter (\<lambda>p. \<not> (enabled p \<and> trim (name p) = [])) (prompts doc_blank)\<rparr>)\<rparr>))
       = results (handleProcess env_ok (app_of doc_blank [''ref.png'']))
   \<and> handleProcess env_ok (app_of doc_allblank [''ref.png''])
       = log (Text ''Error: No prompts selected.'') Error (app_of doc_allblank [''ref.png''])"
proof -
  note th = blank_named_enabled_prompts_excluded
              [of env_ok "app_of doc_allblank [''ref.png'']" doc_allblank]
  note th2 = blank_named_enabled_prompts_excluded
              [of env_ok "app_of doc_blank [''ref.png'']" doc_blank]
  have h: "userDoc (app_of doc_allblank [''ref.png'']) = Some doc_allblank
           \<and> prompts doc_allblank \<noteq> []
           \<and> (\<forall>p\<in>set (prompts doc_allblank). enabled p \<longrightarrow> trim (name p) = [])"
    by code_simp
  from th h have c: "handleProcess env_ok (app_of doc_allblank [''ref.png''])
       = log (Text ''Error: No prompts selected.'') Error (app_of doc_allblank [''ref.png''])"
    by blast
  have n: "map promptName (queuedTasks env_ok (app_of doc_blank [''ref.png'']) doc_blank) = [''wide'']"
    by code_simp
  then have m: "queuedTasks env_ok (app_of doc_blank [''ref.png'']) doc_blank ! 0
                  \<in> set (queuedTasks env_ok (app_of doc_blank [''ref.png'']) doc_blank)"
    by (intro nth_mem) (metis length_map length_Cons zero_less_Suc)
  from th2 m have t: "trim (promptName (queuedTasks env_ok (app_of doc_blank [''ref.png'']) doc_blank ! 0)) \<noteq> []"
    by blast
  have b: "batchStarts (app_of doc_blank [''ref.png'']) doc_blank" by code_simp
  from th2 b have "handleProcess env_ok
        ((app_of doc_blank [''ref.png''])
           \<lparr>userDoc := Some (doc_blank\<lparr>prompts :=
              filter (\<lambda>p. \<not> (enabled p \<and> trim (name p) = [])) (prompts doc_blank)\<rparr>)\<rparr>)
       = (handleProcess env_ok (app_of doc_blank [''ref.png'']))
           \<lparr>userDoc := Some (doc_blank\<lparr>prompts :=
              filter (\<lambda>p. \<not> (enabled p \<and> trim (name p) = [])) (prompts doc_blank)\<rparr>)\<rparr>"
    by blast
  then have r: "results (handleProcess env_ok
        ((app_of doc_blank [''ref.png''])
           \<lparr>userDoc := Some (doc_blank\<lparr>prompts :=
              filter (\<lambda>p. \<not> (enabled p \<and> trim (name p) = [])) (prompts doc_blank)\<rparr>)\<rparr>))
       = results (handleProcess env_ok (app_of doc_blank [''ref.png'']))"
    by simp
  show ?thesis using c n t b r by simp
qed

section \<open>Properties of the editor\<close>

subsection \<open>The tick, the edits and the effects one by one\<close>

lemma autoSaveTick_fires_iff:
  "snd (autoSaveTick now e) \<noteq> None \<longleftrightarrow>
     items e \<noteq> [] \<and> hasChanges e \<and> now - lastInputTime e \<ge> 5000"
  by (simp add: autoSaveTick_def triggerSave_def Let_def)

lemma autoSaveTick_quiet:
  "snd (autoSaveTick now e) = None \<Longrightarrow> fst (autoSaveTick now e) = e"
  by (simp add: autoSaveTick_def triggerSave_def Let_def split: if_splits)

lemma autoSaveTick_fired:
  "snd (autoSaveTick now e) \<noteq> None \<Longrightarrow>
   autoSaveTick now e = (e\<lparr>hasChanges := False\<rparr>, Some (promptsArray e, beforeText e, afterText e))"
  by (simp add: autoSaveTick_def triggerSave_def Let_def split: if_splits)

lemma handleEdit_records:
  "isInput op \<Longrightarrow> lastInputTime (handleEdit t op e) = t \<and> hasChanges (handleEdit t op e)"
  by (induction t op e rule: handleEdit.induct) (simp_all add: recordInput_def Let_def)

lemma handleEdit_flags:
  "isInitialized (handleEdit t op e) = isInitialized e"
  "isLocalChange (handleEdit t op e) = isLocalChange e"
  "promptBefore (handleEdit t op e) = promptBefore e"
  "promptAfter (handleEdit t op e) = promptAfter e"
  by (induction t op e rule: handleEdit.induct; simp add: recordInput_def Let_def)+

lemma receiveProps_initialized:
  assumes "isInitialized e"
  shows "items (receiveProps d e) = items e"
    and "hasChanges (receiveProps d e) = hasChanges e"
    and "lastInputTime (receiveProps d e) = lastInputTime e"
    and "isInitialized (receiveProps d e)"
  using assms
  by (simp_all add: receiveProps_def Let_def initItemsFromProps_def syncTextFromProps_def)

lemma receiveProps_local:
  assumes "isLocalChange e"
  shows "\<not> isLocalChange (receiveProps d e)"
    and "beforeText (receiveProps d e) = beforeText e"
    and "afterText (receiveProps d e) = afterText e"
    and "items (receiveProps d e) = items e"
    and "hasChanges (receiveProps d e) = hasChanges e"
    and "lastInputTime (receiveProps d e) = lastInputTime e"
    and "isInitialized (receiveProps d e) = isInitialized e"
  using assms
  by (simp_all add: receiveProps_def Let_def initItemsFromProps_def syncTextFromProps_def)

lemma flushes_iff:
  "flushes now sys \<longleftrightarrow>
     items (editor sys) \<noteq> [] \<and> hasChanges (editor sys)
     \<and> now - lastInputTime (editor sys) \<ge> 5000"
  unfolding flushes_def by (rule autoSaveTick_fires_iff)

subsection \<open>Events on a settled system\<close>

lemma propagate_settles:
  assumes "isInitialized (editor sys)" and "userDoc (app sys) \<noteq> None"
  shows "settled (propagate sys)"
    and "items (editor (propagate sys)) = items (editor sys)"
    and "beforeText (editor (propagate sys)) = beforeText (editor sys)"
    and "afterText (editor (propagate sys)) = afterText (editor sys)"
    and "hasChanges (editor (propagate sys)) = hasChanges (editor sys)"
    and "lastInputTime (editor (propagate sys)) = lastInputTime (editor sys)"
proof -
  obtain d where d: "userDoc (app sys) = Some d" using assms(2) by auto
  let ?e1 = "(editor sys)\<lparr>isLocalChange := True\<rparr>"
  let ?d1 = "d\<lparr>prompts := promptsArray (editor sys),
               prompt_before := Some (beforeText (editor sys)),
               prompt_after := Some (afterText (editor sys))\<rparr>"
  let ?a1 = "handlePromptsChange (promptsArray (editor sys)) (beforeText (editor sys))
               (afterText (editor sys)) (app sys)"
  have a1: "userDoc ?a1 = Some ?d1" using d by (simp add: handlePromptsChange_def)
  have p: "propagate sys = \<lparr>editor = receiveProps ?d1 ?e1, app = ?a1\<rparr>"
    using assms(1) a1 by (simp add: propagate_def notifyParent_def Let_def)
  have l: "isLocalChange ?e1" by simp
  show "settled (propagate sys)"
    unfolding p settled_def using receiveProps_local[OF l, of ?d1] assms(1) a1 by simp
  show "items (editor (propagate sys)) = items (editor sys)"
    unfolding p using receiveProps_local[OF l, of ?d1] by simp
  show "beforeText (editor (propagate sys)) = beforeText (editor sys)"
    unfolding p using receiveProps_local[OF l, of ?d1] by simp
  show "afterText (editor (propagate sys)) = afterText (editor sys)"
    unfolding p using receiveProps_local[OF l, of ?d1] by simp
  show "hasChanges (editor (propagate sys)) = hasChanges (editor sys)"
    unfolding p using receiveProps_local[OF l, of ?d1] by simp
  show "lastInputTime (editor (propagate sys)) = lastInputTime (editor sys)"
    unfolding p using receiveProps_local[OF l, of ?d1] by simp
qed

lemma mount_settled: "settled (mount now a d)"
  unfolding mount_def Let_def
  by (rule propagate_settles(1))
     (simp_all add: initItemsFromProps_def syncTextFromProps_def)

lemma copy_items:
  "map (\<lambda>p. \<lparr>name = name p, prompt = prompt p, enabled = enabled p,
              skip_beforeafter_prompt = skip_beforeafter_prompt p\<rparr>) ps = ps"
  by (induction ps) simp_all

lemma mount_state:
  "items (editor (mount now a d)) = prompts d
   \<and> hasChanges (editor (mount now a d)) = False
   \<and> lastInputTime (editor (mount now a d)) = now"
proof -
  let ?e0 = "\<lparr>promptBefore = or_empty (prompt_before d),
              promptAfter = or_empty (prompt_after d), items = [],
              beforeText = or_empty (prompt_before d),
              afterText = or_empty (prompt_after d), hasChanges = False,
              lastInputTime = now, isLocalChange = False, isInitialized = False\<rparr>"
  let ?e1 = "initItemsFromProps (prompts d)
               (syncTextFromProps (or_empty (prompt_before d)) (or_empty (prompt_after d)) ?e0)"
  let ?sys = "\<lparr>editor = ?e1, app = a\<lparr>userDoc := Some d\<rparr>\<rparr>"
  have m: "mount now a d = propagate ?sys" by (simp add: mount_def Let_def)
  have i: "isInitialized (editor ?sys)"
    by (simp add: initItemsFromProps_def syncTextFromProps_def)
  have u: "userDoc (app ?sys) \<noteq> None" by simp
  have e1: "items ?e1 = prompts d" "hasChanges ?e1 = False" "lastInputTime ?e1 = now"
    by (simp_all add: initItemsFromProps_def syncTextFromProps_def copy_items)
  show ?thesis
    unfolding m using propagate_settles(2,5,6)[OF i u] e1 by simp
qed

lemma handleEdit_noop: "\<not> isInput op \<Longrightarrow> handleEdit t op e = e"
  by (induction t op e rule: handleEdit.induct) simp_all

lemma handleSavePrompts_userDoc:
  "userDoc a \<noteq> None \<Longrightarrow> userDoc (handleSavePrompts email ok ps b c a) \<noteq> None"
  by (cases email) (simp_all add: handleSavePrompts_def Let_def log_def)

lemma step_edit_editor:
  assumes "settled sys" and "isInput op"
  shows "settled (step email (Edit t op) sys)"
    and "hasChanges (editor (step email (Edit t op) sys))"
    and "lastInputTime (editor (step email (Edit t op) sys)) = t"
    and "items (editor (step email (Edit t op) sys)) = items (handleEdit t op (editor sys))"
proof -
  let ?sys1 = "sys\<lparr>editor := handleEdit t op (editor sys)\<rparr>"
  have s: "step email (Edit t op) sys = propagate ?sys1"
    using assms(2) by (simp add: Let_def)
  have i: "isInitialized (editor ?sys1)"
    using assms(1) by (simp add: settled_def handleEdit_flags)
  have u: "userDoc (app ?sys1) \<noteq> None" using assms(1) by (simp add: settled_def)
  show "settled (step email (Edit t op) sys)"
    unfolding s by (rule propagate_settles(1)[OF i u])
  show "hasChanges (editor (step email (Edit t op) sys))"
    unfolding s propagate_settles(5)[OF i u] using handleEdit_records[OF assms(2)] by simp
  show "lastInputTime (editor (step email (Edit t op) sys)) = t"
    unfolding s propagate_settles(6)[OF i u] using handleEdit_records[OF assms(2)] by simp
  show "items (editor (step email (Edit t op) sys)) = items (handleEdit t op (editor sys))"
    unfolding s propagate_settles(2)[OF i u] by simp
qed

lemma step_tick_quiet:
  assumes "\<not> flushes now sys"
  shows "step email (Tick now ok) sys = sys"
proof -
  have n: "snd (autoSaveTick now (editor sys)) = None" using assms unfolding flushes_def by blast
  then have "autoSaveTick now (editor sys) = (editor sys, None)"
    using autoSaveTick_quiet[OF n] by (metis prod.collapse)
  then show ?thesis by simp
qed

lemma step_tick_fired:
  assumes "flushes now sys" and "settled sys"
  shows "settled (step email (Tick now ok) sys)"
    and "\<not> hasChanges (editor (step email (Tick now ok) sys))"
    and "items (editor (step email (Tick now ok) sys)) = items (editor sys)"
    and "lastInputTime (editor (step email (Tick now ok) sys)) = lastInputTime (editor sys)"
proof -
  let ?e = "editor sys"
  let ?e1 = "?e\<lparr>hasChanges := False\<rparr>"
  let ?a1 = "handleSavePrompts email ok (promptsArray ?e) (beforeText ?e) (afterText ?e) (app sys)"
  have f: "autoSaveTick now ?e = (?e1, Some (promptsArray ?e, beforeText ?e, afterText ?e))"
    using assms(1) unfolding flushes_def by (rule autoSaveTick_fired)
  have u: "userDoc ?a1 \<noteq> None"
    using assms(2) by (simp add: settled_def handleSavePrompts_userDoc)
  then obtain d where d: "userDoc ?a1 = Some d" by auto
  have i: "isInitialized ?e1" "\<not> isLocalChange ?e1" using assms(2) by (simp_all add: settled_def)
  have r: "isInitialized (receiveProps d ?e1)" "\<not> isLocalChange (receiveProps d ?e1)"
          "\<not> hasChanges (receiveProps d ?e1)" "items (receiveProps d ?e1) = items ?e"
          "lastInputTime (receiveProps d ?e1) = lastInputTime ?e"
    using i by (simp_all add: receiveProps_def Let_def initItemsFromProps_def
                  syncTextFromProps_def)
  have "settled (step email (Tick now ok) sys)
    \<and> \<not> hasChanges (editor (step email (Tick now ok) sys))
    \<and> items (editor (step email (Tick now ok) sys)) = items (editor sys)
    \<and> lastInputTime (editor (step email (Tick now ok) sys)) = lastInputTime (editor sys)"
  proof (cases "email \<noteq> None \<and> ok")
    case True
    have echo: "step email (Tick now ok) sys = \<lparr>editor = receiveProps d ?e1, app = ?a1\<rparr>"
      using f d True by (simp add: Let_def)
    show ?thesis unfolding echo using r u by (simp add: settled_def)
  next
    case False
    have silent: "step email (Tick now ok) sys = \<lparr>editor = ?e1, app = ?a1\<rparr>"
      using f False by (auto simp add: Let_def)
    show ?thesis unfolding silent using i u by (simp add: settled_def)
  qed
  then show "settled (step email (Tick now ok) sys)"
    and "\<not> hasChanges (editor (step email (Tick now ok) sys))"
    and "items (editor (step email (Tick now ok) sys)) = items (editor sys)"
    and "lastInputTime (editor (step email (Tick now ok) sys)) = lastInputTime (editor sys)"
    by simp_all
qed

lemma step_inbound_editor:
  assumes "settled sys"
  shows "settled (step email (Inbound d) sys)"
    and "items (editor (step email (Inbound d) sys)) = items (editor sys)"
    and "hasChanges (editor (step email (Inbound d) sys)) = hasChanges (editor sys)"
    and "lastInputTime (editor (step email (Inbound d) sys)) = lastInputTime (editor sys)"
    and "beforeText (editor (step email (Inbound d) sys)) =
           (if or_empty (prompt_before d) \<noteq> promptBefore (editor sys)
               \<or> or_empty (prompt_after d) \<noteq> promptAfter (editor sys)
            then or_empty (prompt_before d) else beforeText (editor sys))"
    and "afterText (editor (step email (Inbound d) sys)) =
           (if or_empty (prompt_before d) \<noteq> promptBefore (editor sys)
               \<or> or_empty (prompt_after d) \<noteq> promptAfter (editor sys)
            then or_empty (prompt_after d) else afterText (editor sys))"
proof -
  let ?e = "editor sys"
  let ?e1 = "receiveProps d ?e"
  let ?sys1 = "\<lparr>editor = ?e1, app = (app sys)\<lparr>userDoc := Some d\<rparr>\<rparr>"
  have fl: "isInitialized ?e" "\<not> isLocalChange ?e" using assms by (simp_all add: settled_def)
  have e1: "isInitialized ?e1" "\<not> isLocalChange ?e1" "items ?e1 = items ?e"
           "hasChanges ?e1 = hasChanges ?e" "lastInputTime ?e1 = lastInputTime ?e"
           "beforeText ?e1 = (if or_empty (prompt_before d) \<noteq> promptBefore ?e
               \<or> or_empty (prompt_after d) \<noteq> promptAfter ?e
            then or_empty (prompt_before d) else beforeText ?e)"
           "afterText ?e1 = (if or_empty (prompt_before d) \<noteq> promptBefore ?e
               \<or> or_empty (prompt_after d) \<noteq> promptAfter ?e
            then or_empty (prompt_after d) else afterText ?e)"
    using fl by (simp_all add: receiveProps_def Let_def initItemsFromProps_def
                   syncTextFromProps_def)
  have i: "isInitialized (editor ?sys1)" using e1 by simp
  have u: "userDoc (app ?sys1) \<noteq> None" by simp
  have s1: "settled ?sys1" using e1 by (simp add: settled_def)
  note p = propagate_settles[OF i u]
  consider (changed) "step email (Inbound d) sys = propagate ?sys1"
    | (same) "step email (Inbound d) sys = ?sys1"
    by (cases "items ?e1 \<noteq> items ?e \<or> beforeText ?e1 \<noteq> beforeText ?e
                \<or> afterText ?e1 \<noteq> afterText ?e") (simp_all add: Let_def)
  then have "settled (step email (Inbound d) sys)
    \<and> items (editor (step email (Inbound d) sys)) = items ?e1
    \<and> hasChanges (editor (step email (Inbound d) sys)) = hasChanges ?e1
    \<and> lastInputTime (editor (step email (Inbound d) sys)) = lastInputTime ?e1
    \<and> beforeText (editor (step email (Inbound d) sys)) = beforeText ?e1
    \<and> afterText (editor (step email (Inbound d) sys)) = afterText ?e1"
  proof cases
    case changed
    show ?thesis unfolding changed using p by simp
  next
    case same
    show ?thesis unfolding same using s1 by simp
  qed
  then show "settled (step email (Inbound d) sys)"
    and "items (editor (step email (Inbound d) sys)) = items (editor sys)"
    and "hasChanges (editor (step email (Inbound d) sys)) = hasChanges (editor sys)"
    and "lastInputTime (editor (step email (Inbound d) sys)) = lastInputTime (editor sys)"
    and "beforeText (editor (step email (Inbound d) sys)) =
           (if or_empty (prompt_before d) \<noteq> promptBefore (editor sys)
               \<or> or_empty (prompt_after d) \<noteq> promptAfter (editor sys)
            then or_empty (prompt_before d) else beforeText (editor sys))"
    and "afterText (editor (step email (Inbound d) sys)) =
           (if or_empty (prompt_before d) \<noteq> promptBefore (editor sys)
               \<or> or_empty (prompt_after d) \<noteq> promptAfter (editor sys)
            then or_empty (prompt_after d) else afterText (editor sys))"
    using e1 by simp_all
qed

lemma step_settled:
  assumes "settled sys"
  shows "settled (step email ev sys)"
proof (cases ev)
  case (Edit t op)
  show ?thesis
  proof (cases "isInput op")
    case True
    then show ?thesis using Edit step_edit_editor(1)[OF assms True] by simp
  next
    case False
    then show ?thesis using Edit assms handleEdit_noop[OF False] by (simp add: Let_def)
  qed
next
  case (Tick now ok)
  show ?thesis
  proof (cases "flushes now sys")
    case True
    then show ?thesis using Tick step_tick_fired(1)[OF True assms] by simp
  next
    case False
    then show ?thesis using Tick assms step_tick_quiet[OF False] by simp
  qed
next
  case (Inbound d)
  then show ?thesis using step_inbound_editor(1)[OF assms] by simp
qed

lemma run_settled: "settled sys \<Longrightarrow> settled (run email evs sys)"
  by (induction evs arbitrary: sys) (simp_all add: step_settled)

lemma reachable_settled: "settled (run email evs (mount now a d))"
  by (rule run_settled) (rule mount_settled)

lemma run_quiet:
  assumes "settled sys" and "hasChanges (editor sys)" and "lastInputTime (editor sys) = t"
    and "quietBefore (t + 5000) evs"
  shows "settled (run email evs sys) \<and> hasChanges (editor (run email evs sys))
         \<and> lastInputTime (editor (run email evs sys)) = t
         \<and> items (editor (run email evs sys)) = items (editor sys)"
  using assms
proof (induction evs arbitrary: sys)
  case Nil
  then show ?case by simp
next
  case (Cons ev evs)
  show ?case
  proof (cases ev)
    case (Edit t' op)
    with Cons.prems show ?thesis by simp
  next
    case (Tick now ok)
    with Cons.prems have "now < t + 5000" and q: "quietBefore (t + 5000) evs" by simp_all
    then have "\<not> flushes now sys" using Cons.prems(3) by (simp add: flushes_iff)
    then have "step email ev sys = sys" unfolding Tick by (rule step_tick_quiet)
    then show ?thesis using Cons.IH[OF Cons.prems(1,2,3) q] by simp
  next
    case (Inbound d)
    with Cons.prems have q: "quietBefore (t + 5000) evs" by simp
    note i = step_inbound_editor[OF Cons.prems(1), of email d]
    have "settled (run email evs (step email ev sys))
         \<and> hasChanges (editor (run email evs (step email ev sys)))
         \<and> lastInputTime (editor (run email evs (step email ev sys))) = t
         \<and> items (editor (run email evs (step email ev sys))) = items (editor (step email ev sys))"
      using i Cons.prems Inbound by (intro Cons.IH) (simp_all add: q)
    then show ?thesis using i Inbound by simp
  qed
qed

subsection \<open>The quiet period\<close>

text \<open>
  Claim C7, as the code has it. At any state, the tick at time \<open>now\<close> saves exactly when
  the item list is not empty, the dirty flag \<open>hasChanges\<close> is set and at least 5000 ms
  have passed since \<open>lastInputTime\<close>. An edit at time \<open>t\<close> restarts the wait: after it, and
  after any ticks before \<open>t + 5000\<close> and any inbound documents, the tick saves exactly
  when the list is not empty and \<open>now\<close> is at least \<open>t + 5000\<close>. The threshold of the claim
  is 5 s, so its times 0, 3, 5 and 8 are 0, 3000, 5000 and 8000 ms.
\<close>

theorem quiet_period_flush:
  "(flushes now sys \<longleftrightarrow>
      items (editor sys) \<noteq> [] \<and> hasChanges (editor sys)
      \<and> now - lastInputTime (editor sys) \<ge> 5000)
   \<and> (settled sys \<and> isInput op \<and> quietBefore (t + 5000) evs \<longrightarrow>
        (flushes now (run email (Edit t op # evs) sys) \<longleftrightarrow>
           items (editor (run email (Edit t op # evs) sys)) \<noteq> [] \<and> now \<ge> t + 5000))"
proof (intro conjI impI)
  show "flushes now sys \<longleftrightarrow>
      items (editor sys) \<noteq> [] \<and> hasChanges (editor sys)
      \<and> now - lastInputTime (editor sys) \<ge> 5000"
    by (rule flushes_iff)
next
  assume a: "settled sys \<and> isInput op \<and> quietBefore (t + 5000) evs"
  let ?sys1 = "step email (Edit t op) sys"
  from a have s: "settled sys" and i: "isInput op" and q: "quietBefore (t + 5000) evs"
    by simp_all
  note e = step_edit_editor[OF s i, of email t]
  have "settled (run email evs ?sys1) \<and> hasChanges (editor (run email evs ?sys1))
         \<and> lastInputTime (editor (run email evs ?sys1)) = t
         \<and> items (editor (run email evs ?sys1)) = items (editor ?sys1)"
    by (rule run_quiet[OF e(1) e(2) e(3) q])
  then show "flushes now (run email (Edit t op # evs) sys) \<longleftrightarrow>
           items (editor (run email (Edit t op # evs) sys)) \<noteq> [] \<and> now \<ge> t + 5000"
    by (auto simp add: flushes_iff)
qed

theorem quiet_period_flush_witness:
  "settled (run email0 first_edit_and_ticks sys_A)
   \<and> \<not> flushes 5000 (run email0 (second_edit # ticks_to_4) (run email0 first_edit_and_ticks sys_A))
   \<and> flushes 8000 (run email0 (second_edit # ticks_to_7) (run email0 first_edit_and_ticks sys_A))"
proof -
  let ?op = "PromptChange 0 ''wide shot, dawn''"
  let ?sys = "run email0 first_edit_and_ticks sys_A"
  have s: "settled ?sys" by code_simp
  have i: "isInput ?op" by simp
  have q: "quietBefore (3000 + 5000) ticks_to_4" "quietBefore (3000 + 5000) ticks_to_7"
    by code_simp+
  have n: "items (editor (run email0 (Edit 3000 ?op # ticks_to_4) ?sys)) \<noteq> []"
          "items (editor (run email0 (Edit 3000 ?op # ticks_to_7) ?sys)) \<noteq> []"
    by code_simp+
  from quiet_period_flush[of 5000 ?sys ?op 3000 ticks_to_4 email0] s i q(1) n(1)
  have a: "\<not> flushes 5000 (run email0 (Edit 3000 ?op # ticks_to_4) ?sys)"
    by simp
  from quiet_period_flush[of 8000 ?sys ?op 3000 ticks_to_7 email0] s i q(2) n(2)
  have b: "flushes 8000 (run email0 (Edit 3000 ?op # ticks_to_7) ?sys)"
    by simp
  show ?thesis using s a b by (simp add: second_edit_def)
qed

text \<open>
  The claim as worded fails on an empty item list: the before-text was edited at 0 ms,
  the flag is set and 5000 ms have passed, and the tick does not save.
\<close>

theorem empty_list_never_flushes_counterexample:
  "hasChanges (editor sys_empty_dirty)
   \<and> 5000 - lastInputTime (editor sys_empty_dirty) \<ge> 5000
   \<and> \<not> flushes 5000 sys_empty_dirty"
  by code_simp

subsection \<open>A save whose remote write fails\<close>

text \<open>
  Claim C8, as the code has it. When the tick saves and the remote write fails, the
  handler catches the failure and logs \<open>Failed to save prompts.\<close> as an error; the user
  document and the items are as before and the saving indicator is off. The dirty flag
  was cleared when the save was issued, whatever the outcome of the write, so no later
  tick saves until another edit sets the flag.
\<close>

theorem failed_write_clears_dirty_flag:
  "flushes now sys \<longrightarrow>
     \<not> hasChanges (editor (step (Some email) (Tick now False) sys))
     \<and> (\<forall>now'. \<not> flushes now' (step (Some email) (Tick now False) sys))
     \<and> items (editor (step (Some email) (Tick now False) sys)) = items (editor sys)
     \<and> logs (app (step (Some email) (Tick now False) sys)) =
         logs (app sys) @ [\<lparr>message = Text ''Failed to save prompts.'', log_type = Error\<rparr>]
     \<and> userDoc (app (step (Some email) (Tick now False) sys)) = userDoc (app sys)
     \<and> \<not> isSavingUserDoc (app (step (Some email) (Tick now False) sys))"
proof
  assume fl: "flushes now sys"
  let ?e = "editor sys"
  let ?a1 = "handleSavePrompts (Some email) False (promptsArray ?e) (beforeText ?e)
               (afterText ?e) (app sys)"
  have f: "autoSaveTick now ?e
             = (?e\<lparr>hasChanges := False\<rparr>, Some (promptsArray ?e, beforeText ?e, afterText ?e))"
    using fl unfolding flushes_def by (rule autoSaveTick_fired)
  have st: "step (Some email) (Tick now False) sys = \<lparr>editor = ?e\<lparr>hasChanges := False\<rparr>, app = ?a1\<rparr>"
    using f by (simp add: Let_def)
  have a1: "logs ?a1 = logs (app sys) @ [\<lparr>message = Text ''Failed to save prompts.'', log_type = Error\<rparr>]"
           "userDoc ?a1 = userDoc (app sys)" "\<not> isSavingUserDoc ?a1"
    by (simp_all add: handleSavePrompts_def Let_def log_def)
  show "\<not> hasChanges (editor (step (Some email) (Tick now False) sys))
     \<and> (\<forall>now'. \<not> flushes now' (step (Some email) (Tick now False) sys))
     \<and> items (editor (step (Some email) (Tick now False) sys)) = items (editor sys)
     \<and> logs (app (step (Some email) (Tick now False) sys)) =
         logs (app sys) @ [\<lparr>message = Text ''Failed to save prompts.'', log_type = Error\<rparr>]
     \<and> userDoc (app (step (Some email) (Tick now False) sys)) = userDoc (app sys)
     \<and> \<not> isSavingUserDoc (app (step (Some email) (Tick now False) sys))"
    unfolding st using a1 by (simp add: flushes_iff)
qed

theorem failed_write_clears_dirty_flag_witness:
  "flushes 5000 sys_dirty
   \<and> logs (app (step email0 (Tick 5000 False) sys_dirty)) =
       logs (app sys_dirty) @ [\<lparr>message = Text ''Failed to save prompts.'', log_type = Error\<rparr>]
   \<and> userDoc (app (step email0 (Tick 5000 False) sys_dirty)) = userDoc (app sys_dirty)"
proof -
  have f: "flushes 5000 sys_dirty" by code_simp
  from failed_write_clears_dirty_flag[of 5000 sys_dirty "''user@example.org''"] f
  show ?thesis by (simp add: email0_def)
qed

text \<open>
  The claim as worded fails: after the failed write the flag is clear and the next tick
  does not retry.
\<close>

theorem failed_write_not_retried_counterexample:
  "flushes 5000 sys_dirty
   \<and> \<not> hasChanges (editor (step email0 (Tick 5000 False) sys_dirty))
   \<and> \<not> flushes 6000 (step email0 (Tick 5000 False) sys_dirty)"
  by code_simp

subsection \<open>Inbound documents\<close>

text \<open>
  Claim C9, as the code has it. In every state a mounted editor can reach, an inbound
  document leaves the item list and the dirty flag as they are: the list is not replaced
  while the flag is set, and it is not replaced after a save has succeeded either, since
  after its first initialisation the editor never takes its items from props. Nothing is
  said of what an inbound document does to the before-text and the after-text.
\<close>

theorem inbound_update_keeps_items:
  "items (editor (step email (Inbound d) (run email evs (mount now a d0))))
     = items (editor (run email evs (mount now a d0)))
   \<and> hasChanges (editor (step email (Inbound d) (run email evs (mount now a d0))))
     = hasChanges (editor (run email evs (mount now a d0)))"
  using step_inbound_editor(2,3)[OF reachable_settled, of email d email evs now a d0]
  by simp

theorem inbound_update_keeps_items_witness:
  "\<not> hasChanges (editor (run email0 saved_run (mount 0 app_A doc_A)))
   \<and> items (editor (step email0 (Inbound doc_remote_before)
                       (run email0 saved_run (mount 0 app_A doc_A))))
     = [item ''wide'' ''wide shot, dusk'', item ''close'' ''close-up'']
   \<and> hasChanges (editor (run email0 [Edit 0 (PromptChange 0 ''wide shot, dusk'')]
                            (mount 0 app_A doc_A)))
   \<and> items (editor (step email0 (Inbound doc_remote_before)
                       (run email0 [Edit 0 (PromptChange 0 ''wide shot, dusk'')]
                          (mount 0 app_A doc_A))))
     = [item ''wide'' ''wide shot, dusk'', item ''close'' ''close-up'']
   \<and> hasChanges (editor (step email0 (Inbound doc_remote_before)
                            (run email0 [Edit 0 (PromptChange 0 ''wide shot, dusk'')]
                               (mount 0 app_A doc_A))))"
proof -
  have c: "\<not> hasChanges (editor (run email0 saved_run (mount 0 app_A doc_A)))"
    by code_simp
  have i: "items (editor (run email0 saved_run (mount 0 app_A doc_A)))
             = [item ''wide'' ''wide shot, dusk'', item ''close'' ''close-up'']"
    by code_simp
  have h: "hasChanges (editor (run email0 [Edit 0 (PromptChange 0 ''wide shot, dusk'')]
                                 (mount 0 app_A doc_A)))"
    by code_simp
  have j: "items (editor (run email0 [Edit 0 (PromptChange 0 ''wide shot, dusk'')]
                            (mount 0 app_A doc_A)))
             = [item ''wide'' ''wide shot, dusk'', item ''close'' ''close-up'']"
    by code_simp
  note clean = inbound_update_keeps_items[of email0 doc_remote_before saved_run 0 app_A doc_A]
  note dirty = inbound_update_keeps_items
                 [of email0 doc_remote_before "[Edit 0 (PromptChange 0 ''wide shot, dusk'')]"
                     0 app_A doc_A]
  from clean dirty c i h j show ?thesis by simp
qed

text \<open>
  The claim as worded fails: after an edit and a successful save the flag is clear; a
  remote document with another prompt list arrives, and the editor is what it was.
\<close>

theorem inbound_after_flush_counterexample:
  "\<not> hasChanges (editor (run email0 saved_run sys_A))
   \<and> prompts doc_remote_prompts \<noteq> items (editor (run email0 saved_run sys_A))
   \<and> editor (step email0 (Inbound doc_remote_prompts) (run email0 saved_run sys_A))
       = editor (run email0 saved_run sys_A)"
  by code_simp

end
